theory Spec2Isabelle
  imports Main "HOL-Library.AList" "HOL-Library.Char_ord" "HOL-Library.List_Lexorder"
begin

section \<open>Strings and paths\<close>

text \<open>
  A Python string is modelled as a \<^typ>\<open>string\<close>, one \<^typ>\<open>char\<close> per code point
  (code points below 256). \<open>Char_ord\<close> orders characters by their code and
  \<open>List_Lexorder\<close> orders strings lexicographically, which is the order Python's
  \<^verbatim>\<open>sorted\<close> uses on \<^verbatim>\<open>str\<close>.
\<close>

definition isspace :: "char \<Rightarrow> bool" where
  \<comment> \<open>\<^verbatim>\<open>str.isspace\<close> on the code points below 256: TAB..CR, FS..US, space, NEL, NBSP.\<close>
  "isspace c =
     (let n = (of_char c :: nat)
      in (9 \<le> n \<and> n \<le> 13) \<or> (28 \<le> n \<and> n \<le> 32) \<or> n = 133 \<or> n = 160)"

definition strip :: "string \<Rightarrow> string" where
  \<comment> \<open>\<^verbatim>\<open>str.strip()\<close>: leading and trailing whitespace removed.\<close>
  "strip s = rev (dropWhile isspace (rev (dropWhile isspace s)))"

definition path_join :: "string \<Rightarrow> string \<Rightarrow> string" where
  \<comment> \<open>\<^verbatim>\<open>os.path.join(a, b)\<close> of \<^verbatim>\<open>posixpath\<close>: an absolute \<open>b\<close> replaces \<open>a\<close>.\<close>
  "path_join a b =
     (if take 1 b = ''/'' then b
      else if a = [] \<or> last a = CHR ''/'' then a @ b
      else a @ ''/'' @ b)"

definition join :: "string \<Rightarrow> string list \<Rightarrow> string" where
  \<comment> \<open>\<^verbatim>\<open>os.path.join(a, *p)\<close>: the components are joined from left to right.\<close>
  "join a p = foldl path_join a p"

section \<open>The file system and the parsed definition files\<close>

text \<open>
  \<^verbatim>\<open>xml.etree.ElementTree\<close> gives an element a tag, a text (\<^verbatim>\<open>None\<close> when the element
  has no character data before its first child) and its child elements in document
  order. Attributes and tails are never read by the program.
\<close>

datatype element = Element (tag: string) (el_text: "string option") (children: "element list")

definition find_elem :: "string \<Rightarrow> element \<Rightarrow> element option" where
  \<comment> \<open>\<^verbatim>\<open>Element.find(t)\<close> for a plain tag: the first child with that tag, or \<^verbatim>\<open>None\<close>.\<close>
  "find_elem t e = List.find (\<lambda>c. tag c = t) (children e)"

definition findall :: "string \<Rightarrow> element \<Rightarrow> element list" where
  \<comment> \<open>\<^verbatim>\<open>Element.findall(t)\<close> for a plain tag: the children with that tag, in document order.\<close>
  "findall t e = filter (\<lambda>c. tag c = t) (children e)"

text \<open>
  The file system is read only. It is the finite list of the paths that exist, each
  with what \<^verbatim>\<open>ET.parse(path).getroot()\<close> gives: \<open>Some root\<close>, or \<open>None\<close> when
  \<^verbatim>\<open>ET.parse\<close> raises (malformed content, a directory, an unreadable file).
\<close>

type_synonym filesystem = "(string \<times> element option) list"

definition path_exists :: "filesystem \<Rightarrow> string \<Rightarrow> bool" where
  \<comment> \<open>\<^verbatim>\<open>os.path.exists(p)\<close>\<close>
  "path_exists fs p = (p \<in> set (map fst fs))"

definition parse :: "filesystem \<Rightarrow> string \<Rightarrow> element option" where
  \<comment> \<open>\<^verbatim>\<open>ET.parse(p).getroot()\<close>; \<open>None\<close> stands for the exception (also when \<open>p\<close> does not exist).\<close>
  "parse fs p = (case map_of fs p of None \<Rightarrow> None | Some r \<Rightarrow> r)"

definition find_file :: "filesystem \<Rightarrow> string \<Rightarrow> string \<Rightarrow> string list option \<Rightarrow> string option" where
  \<comment> \<open>\<open>base_path\<close> is the base path after \<^verbatim>\<open>os.path.normpath\<close>. The \<^verbatim>\<open>DEBUG\<close> lines
      printed here are not part of the model.\<close>
  "find_file fs base_path filename search_subdirs =
     (let candidates =
            [join base_path [filename],
             join base_path [''scripts'', filename],
             join base_path [''res'', ''scripts'', filename],
             join base_path [''source'', ''res'', ''scripts'', filename]]
            @ (case search_subdirs of
                 None \<Rightarrow> []
               | Some subs \<Rightarrow>
                   concat (map (\<lambda>sub.
                     [join base_path [sub, filename],
                      join base_path [''scripts'', sub, filename],
                      join base_path [''res'', ''scripts'', sub, filename],
                      join base_path [''source'', ''res'', ''scripts'', sub, filename]]) subs))
      in List.find (path_exists fs) candidates)"

definition get_def_path :: "filesystem \<Rightarrow> string \<Rightarrow> string \<Rightarrow> string option" where
  "get_def_path fs base_path entity_name =
     find_file fs base_path (entity_name @ ''.def'')
       (Some [''entity_defs'', ''entity_defs/interfaces''])"

section \<open>Collecting the members of a definition file\<close>

text \<open>
  The result of \<^verbatim>\<open>collect_methods\<close> is a dict with the four keys below, each holding a
  dict from member name to descriptor. A Python dict keeps its keys in insertion order and
  an assignment to an existing key keeps the key's position: this is an association list
  under \<^const>\<open>AList.update\<close>. A descriptor is \<^verbatim>\<open>{'type': t}\<close> or \<^verbatim>\<open>{'args': [...]}\<close>.
\<close>

datatype category = ClientMethods | Properties | CellMethods | BaseMethods

datatype descriptor = Type string | Args "string list"

type_synonym dict = "(string \<times> descriptor) list"

type_synonym results = "category \<Rightarrow> dict"

definition section_key :: "category \<Rightarrow> string" where
  "section_key s =
     (case s of ClientMethods \<Rightarrow> ''ClientMethods'' | Properties \<Rightarrow> ''Properties''
      | CellMethods \<Rightarrow> ''CellMethods'' | BaseMethods \<Rightarrow> ''BaseMethods'')"

definition sections :: "category list" where
  \<comment> \<open>the keys of \<^verbatim>\<open>results\<close> in insertion order\<close>
  "sections = [ClientMethods, Properties, CellMethods, BaseMethods]"

definition empty_results :: results where
  "empty_results = (\<lambda>_. [])"

definition dict_update :: "dict \<Rightarrow> dict \<Rightarrow> dict" where
  \<comment> \<open>\<^verbatim>\<open>d.update(other)\<close>\<close>
  "dict_update d other = fold (\<lambda>(k, v). AList.update k v) other d"

definition merge_inherited :: "results \<Rightarrow> results \<Rightarrow> results" where
  \<comment> \<open>\<^verbatim>\<open>for key in results: results[key].update(inherited[key])\<close>\<close>
  "merge_inherited results inherited = (\<lambda>key. dict_update (results key) (inherited key))"

definition is_excluded :: "element \<Rightarrow> bool" where
  \<comment> \<open>the two exclusion rules, applied to the children of every section\<close>
  "is_excluded child =
     (let arg_count = length (findall ''Arg'' child)
      in find_elem ''DetailDistance'' child \<noteq> None \<or> arg_count = 0)"

definition describe :: "category \<Rightarrow> element \<Rightarrow> descriptor" where
  "describe section child =
     (if section = Properties then
        Type (case find_elem ''Type'' child of
                None \<Rightarrow> ''UNKNOWN''
              | Some type_tag \<Rightarrow>
                  (case el_text type_tag of
                     None \<Rightarrow> ''UNKNOWN''
                   | Some t \<Rightarrow> if t \<noteq> [] then strip t else ''UNKNOWN''))
      else
        Args (map (\<lambda>arg. case el_text arg of
                            None \<Rightarrow> []
                          | Some t \<Rightarrow> if t \<noteq> [] then strip t else [])
                  (findall ''Arg'' child)))"

definition process_child :: "category \<Rightarrow> element \<Rightarrow> dict \<Rightarrow> dict" where
  "process_child section child d =
     (if \<not> is_excluded child then AList.update (tag child) (describe section child) d else d)"

definition process_section :: "element \<Rightarrow> category \<Rightarrow> results \<Rightarrow> results" where
  "process_section root section results =
     (case find_elem (section_key section) root of
        None \<Rightarrow> results
      | Some xml_section \<Rightarrow>
          results(section := fold (process_child section) (children xml_section) (results section)))"

definition process_local :: "element \<Rightarrow> results \<Rightarrow> results" where
  \<comment> \<open>step 2 of \<^verbatim>\<open>collect_methods\<close>: the local definitions, section by section\<close>
  "process_local root results = fold (process_section root) sections results"

text \<open>
  What \<^verbatim>\<open>collect_methods\<close> prints: the three diagnostics of the function itself. The
  \<^verbatim>\<open>DEBUG\<close> line for \<^verbatim>\<open>Vehicle.def\<close> is not part of the model.
\<close>

datatype diagnostic =
  Cycle_Detected string
| Warning_not_found string
| Error_failed string

datatype exn = AttributeError

text \<open>
  \<^verbatim>\<open>visited\<close> is one Python list shared by all the calls of a resolution: a call
  receives it, appends to it and pops from it. The model passes it in and returns it.
  \<open>collect_methods\<close> returns the results, the list as the call leaves it and the lines
  printed; \<open>merge_interfaces\<close> is the loop over the \<^verbatim>\<open>Interface\<close> elements, which also
  returns the exception that ended it, if any (\<^verbatim>\<open>interface.text\<close> is \<^verbatim>\<open>None\<close> for an element
  without text, and \<^verbatim>\<open>None.strip()\<close> raises). On a cycle the program returns a dict
  of four empty lists where it otherwise returns a dict of four dicts; the caller only
  passes them to \<^verbatim>\<open>update\<close>, which takes an empty list as no entries, so both are the
  empty results here. Python's recursion limit is not modelled.
\<close>

definition or_empty :: "string list option \<Rightarrow> string list" where
  \<comment> \<open>\<^verbatim>\<open>if visited is None: visited = []\<close>\<close>
  "or_empty visited = (case visited of None \<Rightarrow> [] | Some v \<Rightarrow> v)"

function
  collect_methods :: "filesystem \<Rightarrow> string \<Rightarrow> string \<Rightarrow> string list option
      \<Rightarrow> results \<times> string list \<times> diagnostic list"
and
  merge_interfaces :: "filesystem \<Rightarrow> string \<Rightarrow> element list \<Rightarrow> results \<Rightarrow> string list
      \<Rightarrow> exn option \<times> results \<times> string list \<times> diagnostic list"
where
  "collect_methods fs base_path def_path visited0 =
     (let visited = or_empty visited0 in
      if def_path \<in> set visited then (empty_results, visited, [Cycle_Detected def_path])
      else
        let visited = visited @ [def_path] in
        (case parse fs def_path of
           None \<Rightarrow> (empty_results, butlast visited, [Error_failed def_path])
         | Some root \<Rightarrow>
             (case (case find_elem ''Implements'' root of
                      None \<Rightarrow> (None, empty_results, visited, [])
                    | Some implements \<Rightarrow>
                        merge_interfaces fs base_path (findall ''Interface'' implements)
                          empty_results visited) of
                (Some e, results, visited, out) \<Rightarrow>
                  (results, butlast visited, out @ [Error_failed def_path])
              | (None, results, visited, out) \<Rightarrow>
                  (process_local root results, butlast visited, out))))"
| "merge_interfaces fs base_path [] results visited = (None, results, visited, [])"
| "merge_interfaces fs base_path (interface # rest) results visited =
     (case el_text interface of
        None \<Rightarrow> (Some AttributeError, results, visited, [])
      | Some t \<Rightarrow>
          (let interface_name = strip t in
           case get_def_path fs base_path interface_name of
             Some interface_def \<Rightarrow>
               (case collect_methods fs base_path interface_def (Some visited) of
                  (inherited, visited, out) \<Rightarrow>
                    (case merge_interfaces fs base_path rest
                            (merge_inherited results inherited) visited of
                       (e, results, visited, out') \<Rightarrow> (e, results, visited, out @ out')))
           | None \<Rightarrow>
               (case merge_interfaces fs base_path rest results visited of
                  (e, results, visited, out') \<Rightarrow>
                    (e, results, visited, Warning_not_found interface_name # out'))))"
  by pat_completeness auto

section \<open>Index assignment and the loop over the entities\<close>

text \<open>
  \<^verbatim>\<open>to_indexed_dict\<close> of \<^verbatim>\<open>main\<close>: the keys sorted, numbered by \<^verbatim>\<open>enumerate\<close>; entry \<open>i\<close>
  is \<^verbatim>\<open>{"name": k, **data_dict[k]}\<close>, here the pair of the name and the descriptor.
  \<open>sorted_keys\<close> are keys of \<open>data_dict\<close>, so the lookup \<^verbatim>\<open>data_dict[k]\<close> never fails.
\<close>

type_synonym indexed_dict = "(nat \<times> string \<times> descriptor) list"

definition to_indexed_dict :: "dict \<Rightarrow> indexed_dict" where
  "to_indexed_dict data_dict =
     (let sorted_keys = sort (map fst data_dict)
      in map (\<lambda>(i, k). (i, k, the (map_of data_dict k))) (enumerate 0 sorted_keys))"

record entity_json =
  ent_id :: nat
  ent_name :: string
  clientMethods :: indexed_dict
  properties :: indexed_dict
  cellMethods :: indexed_dict
  baseMethods :: indexed_dict

definition make_entity_json :: "nat \<Rightarrow> string \<Rightarrow> results \<Rightarrow> entity_json" where
  "make_entity_json i n data =
     \<lparr>ent_id = i, ent_name = n,
      clientMethods = to_indexed_dict (data ClientMethods),
      properties = to_indexed_dict (data Properties),
      cellMethods = to_indexed_dict (data CellMethods),
      baseMethods = to_indexed_dict (data BaseMethods)\<rparr>"

fun process_entities :: "filesystem \<Rightarrow> string \<Rightarrow> (nat \<times> string) list \<Rightarrow> entity_json list" where
  \<comment> \<open>step 2 of \<^verbatim>\<open>main\<close>: an entity without a definition file is skipped, every other
      one is resolved by a call of \<^verbatim>\<open>collect_methods\<close> with no \<^verbatim>\<open>visited\<close> argument.
      \<^verbatim>\<open>entity_types\<close> is a dict from id to name, so the ids differ; \<^verbatim>\<open>full_data\<close> is
      given as the list of its values in insertion order.\<close>
  "process_entities fs game_path [] = []"
| "process_entities fs game_path ((i, n) # entity_types) =
     (case get_def_path fs game_path n of
        None \<Rightarrow> process_entities fs game_path entity_types
      | Some def_path \<Rightarrow>
          (case collect_methods fs game_path def_path None of
             (data, _, _) \<Rightarrow>
               make_entity_json i n data # process_entities fs game_path entity_types))"

section \<open>The parts of a definition file that the resolution reads\<close>

text \<open>
  Names for what one call of \<^verbatim>\<open>collect_methods\<close> reads of a parsed file, used to state
  the properties below: the \<^verbatim>\<open>Interface\<close> elements the first loop runs over, the
  children the second loop runs over for a section, the entries the second loop writes
  (in document order; a name can occur more than once), and what the first loop merges
  for one \<^verbatim>\<open>Interface\<close> element when \<^verbatim>\<open>visited\<close> is the list it is called with.
\<close>

definition interfaces_of :: "element \<Rightarrow> element list" where
  "interfaces_of root =
     (case find_elem ''Implements'' root of
        None \<Rightarrow> []
      | Some implements \<Rightarrow> findall ''Interface'' implements)"

definition local_declarations :: "category \<Rightarrow> element \<Rightarrow> element list" where
  "local_declarations section root =
     (case find_elem (section_key section) root of
        None \<Rightarrow> []
      | Some xml_section \<Rightarrow> children xml_section)"

definition surviving :: "category \<Rightarrow> element \<Rightarrow> dict" where
  "surviving section root =
     map (\<lambda>child. (tag child, describe section child))
       (filter (\<lambda>child. \<not> is_excluded child) (local_declarations section root))"

definition inherited_from :: "filesystem \<Rightarrow> string \<Rightarrow> string list \<Rightarrow> element \<Rightarrow> results" where
  "inherited_from fs base_path visited interface =
     (case el_text interface of
        None \<Rightarrow> empty_results
      | Some t \<Rightarrow>
          (case get_def_path fs base_path (strip t) of
             None \<Rightarrow> empty_results
           | Some interface_def \<Rightarrow>
               fst (collect_methods fs base_path interface_def (Some visited))))"

section \<open>Definition sets used as examples\<close>

text \<open>
  The scenario of the specification: interface \<^verbatim>\<open>Shared\<close> declares the property
  \<^verbatim>\<open>health\<close> of type \<^verbatim>\<open>FLOAT\<close>, entity \<^verbatim>\<open>Tank\<close> implements \<^verbatim>\<open>Shared\<close> only.
\<close>

definition tank_fs :: filesystem where
  "tank_fs =
     [(''g/Tank.def'', Some (Element ''root'' None
         [Element ''Implements'' None [Element ''Interface'' (Some ''Shared'') []]])),
      (''g/Shared.def'', Some (Element ''root'' None
         [Element ''Properties'' None
            [Element ''health'' None [Element ''Type'' (Some ''FLOAT'') []]]]))]"

text \<open>
  A diamond: \<^verbatim>\<open>A\<close> implements \<^verbatim>\<open>B\<close> and \<^verbatim>\<open>C\<close>, both implement \<^verbatim>\<open>D\<close>, which declares
  the client method \<^verbatim>\<open>m(INT32)\<close>.
\<close>

definition diamond_fs :: filesystem where
  "diamond_fs =
     [(''g/A.def'', Some (Element ''root'' None
         [Element ''Implements'' None
            [Element ''Interface'' (Some ''B'') [], Element ''Interface'' (Some ''C'') []]])),
      (''g/B.def'', Some (Element ''root'' None
         [Element ''Implements'' None [Element ''Interface'' (Some ''D'') []]])),
      (''g/C.def'', Some (Element ''root'' None
         [Element ''Implements'' None [Element ''Interface'' (Some ''D'') []]])),
      (''g/D.def'', Some (Element ''root'' None
         [Element ''ClientMethods'' None
            [Element ''m'' None [Element ''Arg'' (Some ''INT32'') []]]]))]"

text \<open>
  A cycle next to a branch without one: \<^verbatim>\<open>A\<close> implements \<^verbatim>\<open>B\<close> and \<^verbatim>\<open>C\<close>, \<^verbatim>\<open>B\<close>
  implements \<^verbatim>\<open>A\<close>; each of the three declares a client method of its own.
\<close>

definition cycle_fs :: filesystem where
  "cycle_fs =
     [(''g/A.def'', Some (Element ''root'' None
         [Element ''Implements'' None
            [Element ''Interface'' (Some ''B'') [], Element ''Interface'' (Some ''C'') []],
          Element ''ClientMethods'' None
            [Element ''ma'' None [Element ''Arg'' (Some ''INT32'') []]]])),
      (''g/B.def'', Some (Element ''root'' None
         [Element ''Implements'' None [Element ''Interface'' (Some ''A'') []],
          Element ''ClientMethods'' None
            [Element ''mb'' None [Element ''Arg'' (Some ''INT8'') []]]])),
      (''g/C.def'', Some (Element ''root'' None
         [Element ''ClientMethods'' None
            [Element ''mc'' None [Element ''Arg'' (Some ''INT16'') []]]]))]"

text \<open>
  Failures: \<^verbatim>\<open>X\<close> implements \<^verbatim>\<open>Good\<close>, then has an \<^verbatim>\<open>Interface\<close> element without text,
  then implements \<^verbatim>\<open>Late\<close>, and declares a client method of its own; \<^verbatim>\<open>Bad.def\<close> exists
  but does not parse; \<^verbatim>\<open>Y\<close> implements \<^verbatim>\<open>Bad\<close>, \<^verbatim>\<open>Missing\<close> (no such file) and \<^verbatim>\<open>Good\<close>.
\<close>

definition broken_fs :: filesystem where
  "broken_fs =
     [(''g/X.def'', Some (Element ''root'' None
         [Element ''Implements'' None
            [Element ''Interface'' (Some ''Good'') [], Element ''Interface'' None [],
             Element ''Interface'' (Some ''Late'') []],
          Element ''ClientMethods'' None
            [Element ''loc'' None [Element ''Arg'' (Some ''INT32'') []]]])),
      (''g/Good.def'', Some (Element ''root'' None
         [Element ''ClientMethods'' None
            [Element ''m'' None [Element ''Arg'' (Some ''INT8'') []]]])),
      (''g/Late.def'', Some (Element ''root'' None
         [Element ''ClientMethods'' None
            [Element ''late'' None [Element ''Arg'' (Some ''INT8'') []]]])),
      (''g/Bad.def'', None),
      (''g/Y.def'', Some (Element ''root'' None
         [Element ''Implements'' None
            [Element ''Interface'' (Some ''Bad'') [], Element ''Interface'' (Some ''Missing'') [],
             Element ''Interface'' (Some ''Good'') []]]))]"

text \<open>
  Merging and exclusion, after the scenario of the specification: \<^verbatim>\<open>Vehicle\<close> implements
  \<^verbatim>\<open>Damageable\<close> and \<^verbatim>\<open>Armored\<close>. \<^verbatim>\<open>Damageable\<close> declares \<^verbatim>\<open>takeDamage(INT32)\<close>,
  \<^verbatim>\<open>repair(INT8)\<close>, \<^verbatim>\<open>heal(INT8)\<close>, \<^verbatim>\<open>sig()\<close> and \<^verbatim>\<open>lod(INT8)\<close> with a detail-distance
  marker; \<^verbatim>\<open>Armored\<close> declares \<^verbatim>\<open>repair(INT16)\<close>; \<^verbatim>\<open>Vehicle\<close> declares
  \<^verbatim>\<open>takeDamage(INT32, STRING)\<close>, \<^verbatim>\<open>ping()\<close> and \<^verbatim>\<open>heal()\<close>.
\<close>

definition vehicle_fs :: filesystem where
  "vehicle_fs =
     [(''g/Vehicle.def'', Some (Element ''root'' None
         [Element ''Implements'' None
            [Element ''Interface'' (Some ''Damageable'') [],
             Element ''Interface'' (Some ''Armored'') []],
          Element ''ClientMethods'' None
            [Element ''takeDamage'' None
               [Element ''Arg'' (Some ''INT32'') [], Element ''Arg'' (Some ''STRING'') []],
             Element ''ping'' None [],
             Element ''heal'' None []]])),
      (''g/Damageable.def'', Some (Element ''root'' None
         [Element ''ClientMethods'' None
            [Element ''takeDamage'' None [Element ''Arg'' (Some ''INT32'') []],
             Element ''repair'' None [Element ''Arg'' (Some ''INT8'') []],
             Element ''heal'' None [Element ''Arg'' (Some ''INT8'') []],
             Element ''sig'' None [],
             Element ''lod'' None
               [Element ''Arg'' (Some ''INT8'') [], Element ''DetailDistance'' (Some ''50'') []]]])),
      (''g/Armored.def'', Some (Element ''root'' None
         [Element ''ClientMethods'' None
            [Element ''repair'' None [Element ''Arg'' (Some ''INT16'') []]]]))]"

text \<open>
  One file declaring the client method \<^verbatim>\<open>m\<close> three times, the last time without
  arguments, and implementing \<^verbatim>\<open>Base\<close>, which declares \<^verbatim>\<open>m(INT64)\<close>.
\<close>

definition dup_fs :: filesystem where
  "dup_fs =
     [(''g/Dup.def'', Some (Element ''root'' None
         [Element ''Implements'' None [Element ''Interface'' (Some ''Base'') []],
          Element ''ClientMethods'' None
            [Element ''m'' None [Element ''Arg'' (Some ''INT8'') []],
             Element ''n'' None [Element ''Arg'' (Some ''INT8'') []],
             Element ''m'' None [Element ''Arg'' (Some ''INT16'') []],
             Element ''m'' None []]])),
      (''g/Base.def'', Some (Element ''root'' None
         [Element ''ClientMethods'' None
            [Element ''m'' None [Element ''Arg'' (Some ''INT64'') []]]]))]"

text \<open>
  An \<^verbatim>\<open>Interface\<close> element without text next to local declarations: \<^verbatim>\<open>E\<close> implements \<^verbatim>\<open>I\<close>
  (which declares \<^verbatim>\<open>m(INT8)\<close>), has a second \<^verbatim>\<open>Interface\<close> element without text and
  declares \<^verbatim>\<open>m(INT16)\<close>; \<^verbatim>\<open>Dup\<close> has one \<^verbatim>\<open>Interface\<close> element, without text, and
  declares \<^verbatim>\<open>m(INT8)\<close> and \<^verbatim>\<open>m(INT16)\<close>.
\<close>

definition override_fs :: filesystem where
  "override_fs =
     [(''g/E.def'', Some (Element ''root'' None
         [Element ''Implements'' None
            [Element ''Interface'' (Some ''I'') [], Element ''Interface'' None []],
          Element ''ClientMethods'' None
            [Element ''m'' None [Element ''Arg'' (Some ''INT16'') []]]])),
      (''g/I.def'', Some (Element ''root'' None
         [Element ''ClientMethods'' None
            [Element ''m'' None [Element ''Arg'' (Some ''INT8'') []]]]))]"

definition dup_broken_fs :: filesystem where
  "dup_broken_fs =
     [(''g/Dup.def'', Some (Element ''root'' None
         [Element ''Implements'' None [Element ''Interface'' None []],
          Element ''ClientMethods'' None
            [Element ''m'' None [Element ''Arg'' (Some ''INT8'') []],
             Element ''m'' None [Element ''Arg'' (Some ''INT16'') []]]]))]"

section \<open>Termination of the resolution\<close>

lemma or_empty_simps [simp]: "or_empty None = []" "or_empty (Some v) = v"
  by (simp_all add: or_empty_def)

lemma parse_Some_exists: "parse fs p = Some root \<Longrightarrow> p \<in> set (map fst fs)"
proof -
  assume "parse fs p = Some root"
  then have "map_of fs p \<noteq> None" by (auto simp: parse_def split: option.splits)
  then show ?thesis by (simp add: map_of_eq_None_iff)
qed

text \<open>
  Where the recursion is defined, a call returns the list \<^verbatim>\<open>visited\<close> as it received it.
  The loop over the interfaces passes the list returned by one call to the next, so
  this is what makes the calls of the loop smaller than the call that runs the loop.
\<close>

lemma visited_restored_dom:
  "collect_methods_merge_interfaces_dom (Inl (fs, b, p, v0)) \<Longrightarrow>
     fst (snd (collect_methods fs b p v0)) = or_empty v0"
  "collect_methods_merge_interfaces_dom (Inr (fs, b, is, r, v)) \<Longrightarrow>
     fst (snd (snd (merge_interfaces fs b is r v))) = v"
proof (induct rule: collect_methods_merge_interfaces.pinduct)
  case (1 fs base_path def_path visited0)
  define v where "v = or_empty visited0"
  show ?case
  proof (cases "def_path \<in> set v")
    case True
    then show ?thesis using 1(1) by (simp add: collect_methods.psimps v_def)
  next
    case False
    show ?thesis
    proof (cases "parse fs def_path")
      case None
      then show ?thesis using 1(1) False by (simp add: collect_methods.psimps v_def)
    next
      case (Some root)
      note root = this
      show ?thesis
      proof (cases "find_elem ''Implements'' root")
        case None
        then show ?thesis using 1(1) False root
          by (simp add: collect_methods.psimps v_def)
      next
        case (Some implements)
        obtain e r v' out where m:
          "merge_interfaces fs base_path (findall ''Interface'' implements)
             empty_results (v @ [def_path]) = (e, r, v', out)"
          by (cases "merge_interfaces fs base_path (findall ''Interface'' implements)
             empty_results (v @ [def_path])") auto
        have "fst (snd (snd (merge_interfaces fs base_path (findall ''Interface'' implements)
            empty_results (v @ [def_path])))) = v @ [def_path]"
          using 1(2)[OF v_def _ refl root Some] False by simp
        then have "v' = v @ [def_path]" using m by simp
        then show ?thesis using 1(1) False root Some m
          by (cases e) (simp_all add: collect_methods.psimps v_def[symmetric])
      qed
    qed
  qed
next
  case (2 fs base_path results visited)
  then show ?case by (simp add: merge_interfaces.psimps)
next
  case (3 fs base_path interface rest results visited)
  show ?case
  proof (cases "el_text interface")
    case None
    then show ?thesis using 3(1) by (simp add: merge_interfaces.psimps)
  next
    case (Some t)
    note t = this
    show ?thesis
    proof (cases "get_def_path fs base_path (strip t)")
      case None
      then show ?thesis using 3(1) 3(2)[OF t refl None] t
        by (simp add: merge_interfaces.psimps case_prod_beta)
    next
      case (Some interface_def)
      obtain inh v' out where c:
        "collect_methods fs base_path interface_def (Some visited) = (inh, v', out)"
        by (cases "collect_methods fs base_path interface_def (Some visited)") auto
      have "v' = visited"
        using 3(3)[OF t refl Some] c by simp
      moreover have "fst (snd (snd (merge_interfaces fs base_path rest
          (merge_inherited results inh) v'))) = v'"
        using 3(4)[OF t refl Some, of inh "(v', out)" v' out] c by simp
      ultimately show ?thesis using 3(1) t Some c
        by (simp add: merge_interfaces.psimps case_prod_beta)
    qed
  qed
qed

text \<open>
  Every call terminates: the paths that exist and are not in \<^verbatim>\<open>visited\<close> become fewer
  with each nested call, and the loop over the interfaces gets shorter.
\<close>

lemma collect_methods_dom_all: "All collect_methods_merge_interfaces_dom"
proof (relation "inv_image (less_than <*lex*> less_than <*lex*> less_than)
     (\<lambda>x. case x of
        Inl (fs, b, p, v0) \<Rightarrow> (card (set (map fst fs) - set (or_empty v0)), 0::nat, 0::nat)
      | Inr (fs, b, is, r, v) \<Rightarrow> (card (set (map fst fs) - set v), 1, length is))",
    goal_cases)
  case 1
  show ?case by (intro wf_inv_image wf_lex_prod wf_less_than)
next
  case (2 fs base_path def_path visited0 x xa x2 x2a)
  have "def_path \<in> set (map fst fs)" using 2 by (auto dest: parse_Some_exists)
  then have "set (map fst fs) - set xa \<subset> set (map fst fs) - set x"
    using 2 by auto
  then have "card (set (map fst fs) - set xa) < card (set (map fst fs) - set x)"
    by (intro psubset_card_mono) simp_all
  then show ?case using 2 by simp
next
  case 3
  then show ?case by simp
next
  case 4
  then show ?case by simp
next
  case (5 fs base_path interface rest results visited x2 x x2a xa y xb ya)
  then have "xb = visited"
    using visited_restored_dom(1)[of fs base_path x2a "Some visited"]
    by (metis fst_conv snd_conv or_empty_simps(2))
  then show ?case by simp
qed

termination collect_methods
  by (rule collect_methods_dom_all)

declare collect_methods.simps [simp del]

lemma visited_restored:
  "fst (snd (collect_methods fs b p v0)) = or_empty v0"
  "fst (snd (snd (merge_interfaces fs b is r v))) = v"
  using collect_methods_dom_all by (simp_all add: visited_restored_dom)

section \<open>Dicts under update\<close>

lemma dict_update_Nil [simp]: "dict_update d [] = d"
  by (simp add: dict_update_def)

lemma dict_update_Cons: "dict_update d ((k, x) # other) = dict_update (AList.update k x d) other"
  by (simp add: dict_update_def)

lemma dict_update_append: "dict_update d (xs @ ys) = dict_update (dict_update d xs) ys"
  by (simp add: dict_update_def)

lemma map_of_dict_update: "map_of (dict_update d other) = map_of d ++ map_of (rev other)"
proof (induction other arbitrary: d)
  case Nil
  then show ?case by simp
next
  case (Cons a other)
  obtain k x where a: "a = (k, x)" by (cases a)
  have "map_of (dict_update d (a # other)) = map_of (AList.update k x d) ++ map_of (rev other)"
    using Cons.IH a by (simp add: dict_update_Cons)
  also have "\<dots> = map_of d ++ map_of (rev (a # other))"
    by (simp add: a update_conv' map_add_upd_left fun_eq_iff map_add_def split: option.splits)
  finally show ?case .
qed

lemma keys_dict_update:
  "set (map fst (dict_update d other)) = set (map fst d) \<union> set (map fst other)"
proof (induction other arbitrary: d)
  case Nil
  then show ?case by simp
next
  case (Cons a other)
  obtain k x where a: "a = (k, x)" by (cases a)
  show ?case using Cons.IH[of "AList.update k x d"] dom_update[of k x d]
    by (auto simp: a dict_update_Cons)
qed

lemma distinct_dict_update:
  "distinct (map fst d) \<Longrightarrow> distinct (map fst (dict_update d other))"
proof (induction other arbitrary: d)
  case Nil
  then show ?case by simp
next
  case (Cons a other)
  obtain k x where a: "a = (k, x)" by (cases a)
  show ?case using Cons by (simp add: a dict_update_Cons distinct_update)
qed

lemma set_update_subset: "set (AList.update k x d) \<subseteq> insert (k, x) (set d)"
  by (induction d) auto

lemma set_dict_update_subset: "set (dict_update d other) \<subseteq> set d \<union> set other"
proof (induction other arbitrary: d)
  case Nil
  then show ?case by simp
next
  case (Cons a other)
  obtain k x where a: "a = (k, x)" by (cases a)
  show ?case using Cons.IH[of "AList.update k x d"] set_update_subset[of k x d]
    by (auto simp: a dict_update_Cons)
qed

lemma map_of_rev_distinct: "distinct (map fst xs) \<Longrightarrow> map_of (rev xs) = map_of xs"
proof (rule ext)
  fix k
  assume d: "distinct (map fst xs)"
  then have d': "distinct (map fst (rev xs))" by (simp add: rev_map[symmetric])
  show "map_of (rev xs) k = map_of xs k"
  proof (cases "map_of xs k")
    case None
    then have "k \<notin> fst ` set xs" by (simp add: map_of_eq_None_iff)
    then have "map_of (rev xs) k = None" by (simp add: map_of_eq_None_iff)
    then show ?thesis using None by simp
  next
    case (Some x)
    then have "(k, x) \<in> set (rev xs)" using d by simp
    then show ?thesis using Some d' by simp
  qed
qed

lemma merge_inherited_empty [simp]: "merge_inherited r empty_results = r"
  by (simp add: merge_inherited_def empty_results_def)

section \<open>The local definitions in closed form\<close>

lemma fold_process_child:
  "fold (process_child section) cs d =
     dict_update d (map (\<lambda>child. (tag child, describe section child))
       (filter (\<lambda>child. \<not> is_excluded child) cs))"
  by (induction cs arbitrary: d) (simp_all add: process_child_def dict_update_Cons)

lemma process_section_eq:
  "process_section root section r = r(section := dict_update (r section) (surviving section root))"
  by (auto simp: process_section_def surviving_def local_declarations_def fold_process_child
      split: option.splits)

lemma process_local_eq:
  "process_local root r section = dict_update (r section) (surviving section root)"
  by (cases "section") (simp_all add: process_local_def sections_def process_section_eq)

section \<open>The loop over the interfaces in closed form\<close>

lemma merge_interfaces_step:
  "merge_interfaces fs b (i # rest) r v =
     (case el_text i of
        None \<Rightarrow> (Some AttributeError, r, v, [])
      | Some t \<Rightarrow>
          (case merge_interfaces fs b rest (merge_inherited r (inherited_from fs b v i)) v of
             (e, r', v', out') \<Rightarrow>
               (e, r', v',
                (case get_def_path fs b (strip t) of
                   None \<Rightarrow> [Warning_not_found (strip t)]
                 | Some q \<Rightarrow> snd (snd (collect_methods fs b q (Some v)))) @ out')))"
proof (cases "el_text i")
  case None
  then show ?thesis by simp
next
  case (Some t)
  show ?thesis
  proof (cases "get_def_path fs b (strip t)")
    case None
    then show ?thesis using Some
      by (simp add: inherited_from_def case_prod_beta)
  next
    case (Some q)
    obtain inh v' out where c: "collect_methods fs b q (Some v) = (inh, v', out)"
      by (cases "collect_methods fs b q (Some v)") auto
    then have "v' = v" using visited_restored(1)[of fs b q "Some v"] by simp
    then show ?thesis using \<open>el_text i = Some t\<close> Some c
      by (simp add: inherited_from_def case_prod_beta)
  qed
qed

lemma merge_interfaces_results:
  "fst (snd (merge_interfaces fs b is r v)) =
     fold (\<lambda>i acc. merge_inherited acc (inherited_from fs b v i))
       (takeWhile (\<lambda>i. el_text i \<noteq> None) is) r"
proof (induction "is" arbitrary: r)
  case Nil
  then show ?case by simp
next
  case (Cons i rest)
  show ?case
    by (cases "el_text i") (simp_all add: merge_interfaces_step Cons.IH case_prod_beta del: merge_interfaces.simps)
qed

lemma merge_interfaces_exn:
  "fst (merge_interfaces fs b is r v) =
     (if \<forall>i\<in>set is. el_text i \<noteq> None then None else Some AttributeError)"
proof (induction "is" arbitrary: r)
  case Nil
  then show ?case by simp
next
  case (Cons i rest)
  show ?case
    by (cases "el_text i") (simp_all add: merge_interfaces_step Cons.IH case_prod_beta del: merge_interfaces.simps)
qed

lemma collect_methods_cycle:
  "p \<in> set (or_empty v0) \<Longrightarrow>
     collect_methods fs b p v0 = (empty_results, or_empty v0, [Cycle_Detected p])"
  by (simp add: collect_methods.simps)

lemma collect_methods_parse_error:
  "p \<notin> set (or_empty v0) \<Longrightarrow> parse fs p = None \<Longrightarrow>
     collect_methods fs b p v0 = (empty_results, or_empty v0, [Error_failed p])"
  by (simp add: collect_methods.simps)

lemma collect_methods_parsed:
  assumes "p \<notin> set (or_empty v0)" and "parse fs p = Some root"
  shows "collect_methods fs b p v0 =
     (case merge_interfaces fs b (interfaces_of root) empty_results (or_empty v0 @ [p]) of
        (Some e, r, v, out) \<Rightarrow> (r, or_empty v0, out @ [Error_failed p])
      | (None, r, v, out) \<Rightarrow> (process_local root r, or_empty v0, out))"
proof -
  obtain e r v out where m:
    "merge_interfaces fs b (interfaces_of root) empty_results (or_empty v0 @ [p]) = (e, r, v, out)"
    by (cases "merge_interfaces fs b (interfaces_of root) empty_results (or_empty v0 @ [p])") auto
  then have v: "v = or_empty v0 @ [p]"
    using visited_restored(2)[of fs b "interfaces_of root" empty_results "or_empty v0 @ [p]"] by simp
  show ?thesis
  proof (cases "find_elem ''Implements'' root")
    case None
    then show ?thesis using assms
      by (simp add: collect_methods.simps interfaces_of_def)
  next
    case (Some implements)
    then show ?thesis using assms m v
      by (cases e) (simp_all add: collect_methods.simps interfaces_of_def)
  qed
qed

section \<open>Invariants of the results\<close>

lemma collect_invariant:
  assumes e: "\<And>fs. Inv fs empty_results"
    and m: "\<And>fs r inh. Inv fs r \<Longrightarrow> Inv fs inh \<Longrightarrow> Inv fs (merge_inherited r inh)"
    and l: "\<And>fs p root r. parse fs p = Some root \<Longrightarrow> Inv fs r \<Longrightarrow> Inv fs (process_local root r)"
  shows "Inv fs (fst (collect_methods fs b p v0))"
    and "Inv fs r \<Longrightarrow> Inv fs (fst (snd (merge_interfaces fs b is r v)))"
proof (induct fs b p v0 and fs b "is" r v rule: collect_methods_merge_interfaces.induct)
  case (1 fs base_path def_path visited0)
  show ?case
  proof (cases "def_path \<in> set (or_empty visited0)")
    case True
    then show ?thesis by (simp add: collect_methods_cycle e)
  next
    case False
    note fresh = this
    show ?thesis
    proof (cases "parse fs def_path")
      case None
      then show ?thesis using fresh by (simp add: collect_methods_parse_error e)
    next
      case (Some root)
      have inv: "Inv fs (fst (snd (merge_interfaces fs base_path (interfaces_of root)
          empty_results (or_empty visited0 @ [def_path]))))"
      proof (cases "find_elem ''Implements'' root")
        case None
        then show ?thesis by (simp add: interfaces_of_def e)
      next
        case (Some implements)
        then show ?thesis
          using 1[OF refl fresh refl \<open>parse fs def_path = Some root\<close> Some e]
          by (simp add: interfaces_of_def)
      qed
      obtain ex r v out where mi:
        "merge_interfaces fs base_path (interfaces_of root) empty_results
           (or_empty visited0 @ [def_path]) = (ex, r, v, out)"
        by (cases "merge_interfaces fs base_path (interfaces_of root) empty_results
           (or_empty visited0 @ [def_path])") auto
      show ?thesis using inv mi l[OF Some, of r]
        by (cases ex) (simp_all add: collect_methods_parsed[OF fresh Some])
    qed
  qed
next
  case (2 fs base_path results visited)
  then show ?case by simp
next
  case (3 fs base_path interface rest results visited)
  show ?case
  proof (cases "el_text interface")
    case None
    then show ?thesis using 3(4) by simp
  next
    case (Some t)
    note t = this
    show ?thesis
    proof (cases "get_def_path fs base_path (strip t)")
      case None
      then show ?thesis using 3(1)[OF t refl None 3(4)] t
        by (simp add: case_prod_beta)
    next
      case (Some q)
      obtain inh v' out where c: "collect_methods fs base_path q (Some visited) = (inh, v', out)"
        by (cases "collect_methods fs base_path q (Some visited)") auto
      have "Inv fs inh" using 3(2)[OF t refl Some] c by simp
      then have "Inv fs (merge_inherited results inh)" using 3(4) by (rule m[rotated])
      then show ?thesis
        using 3(3)[OF t refl Some, of inh "(v', out)" v' out] c t Some
        by (simp add: case_prod_beta)
    qed
  qed
qed

lemma distinct_results: "distinct (map fst (fst (collect_methods fs b p v0) sec))"
proof -
  have "\<forall>sec. distinct (map fst (fst (collect_methods fs b p v0) sec))"
    by (rule collect_invariant(1)[where Inv = "\<lambda>fs r. \<forall>sec. distinct (map fst (r sec))"])
      (simp_all add: empty_results_def merge_inherited_def process_local_eq distinct_dict_update)
  then show ?thesis by simp
qed

lemma surviving_set:
  "(n, d) \<in> set (surviving sec root) \<longleftrightarrow>
     (\<exists>c \<in> set (local_declarations sec root). tag c = n \<and> d = describe sec c \<and> \<not> is_excluded c)"
  by (auto simp: surviving_def)

lemma results_provenance:
  "set (fst (collect_methods fs b p v0) sec) \<subseteq>
     (\<Union>root \<in> {root. Some root \<in> snd ` set fs}. set (surviving sec root))"
proof -
  let ?A = "\<lambda>fs sec. (\<Union>root \<in> {root. Some root \<in> snd ` set fs}. set (surviving sec root))"
  have "\<forall>sec. set (fst (collect_methods fs b p v0) sec) \<subseteq> ?A fs sec"
  proof (rule collect_invariant(1)[where Inv = "\<lambda>fs r. \<forall>sec. set (r sec) \<subseteq> ?A fs sec"], goal_cases)
    case (1 fs)
    then show ?case by (simp add: empty_results_def)
  next
    case (2 fs r inh)
    then show ?case using set_dict_update_subset by (fastforce simp: merge_inherited_def)
  next
    case (3 fs p root r)
    then have "Some root \<in> snd ` set fs"
      by (auto simp: parse_def split: option.splits dest!: map_of_SomeD intro: rev_image_eqI)
    then have "\<And>sec. set (surviving sec root) \<subseteq> ?A fs sec" by blast
    then show ?case using 3(2) set_dict_update_subset
      by (fastforce simp: process_local_eq)
  qed
  then show ?thesis by simp
qed

section \<open>Properties and the zero-argument rule\<close>

text \<open>
  C1. The specification says that a property declaration is never excluded by the
  zero-argument rule, so that \<^verbatim>\<open>Tank\<close>, implementing only \<^verbatim>\<open>Shared\<close> with its property
  \<^verbatim>\<open>health\<close> of type \<^verbatim>\<open>FLOAT\<close>, gets the Properties map \<^verbatim>\<open>{health: {type: FLOAT}}\<close>.
  The program counts the \<^verbatim>\<open>Arg\<close> children of the children of every section, the
  Properties section too, and a property declaration has none: on this definition set
  the resolver finds \<^verbatim>\<open>Tank.def\<close> and the Properties map of \<^verbatim>\<open>Tank\<close> is empty.
\<close>

theorem tank_properties_excluded:
  "get_def_path tank_fs ''g'' ''Tank'' = Some ''g/Tank.def''
   \<and> fst (collect_methods tank_fs ''g'' ''g/Tank.def'' None) Properties = []
   \<and> fst (collect_methods tank_fs ''g'' ''g/Tank.def'' None) Properties
       \<noteq> [(''health'', Type ''FLOAT'')]"
  by code_simp

section \<open>The list of visited paths\<close>

lemma merge_interfaces_found:
  assumes "el_text i = Some t" and "get_def_path fs b (strip t) = Some q"
  shows "merge_interfaces fs b (i # rest) r v =
     (case collect_methods fs b q (Some v) of
        (inh, _, out) \<Rightarrow>
          (case merge_interfaces fs b rest (merge_inherited r inh) v of
             (e, r', v', out') \<Rightarrow> (e, r', v', out @ out')))"
proof -
  obtain inh v' out where c: "collect_methods fs b q (Some v) = (inh, v', out)"
    by (cases "collect_methods fs b q (Some v)") auto
  then have "v' = v" using visited_restored(1)[of fs b q "Some v"] by simp
  then show ?thesis using assms c by simp
qed

text \<open>
  C2, as the specification states it: the list of visited paths is shared by the whole
  call tree, so that a path met earlier anywhere in the tree, not only on the current
  call stack, gives four empty maps when it is met again. The program pops a path when
  the call that pushed it returns, so the list holds the current call stack only. In the
  diamond, \<^verbatim>\<open>D\<close> is met under \<^verbatim>\<open>B\<close> with the list \<^verbatim>\<open>[A, B]\<close>; when \<^verbatim>\<open>B\<close> returns the
  list is \<^verbatim>\<open>[A]\<close> again, \<^verbatim>\<open>D\<close> is met a second time under \<^verbatim>\<open>C\<close> with the list \<^verbatim>\<open>[A, C]\<close>
  and is resolved in full again: \<^verbatim>\<open>C\<close> contributes \<^verbatim>\<open>m\<close>, and the whole resolution of \<^verbatim>\<open>A\<close>
  prints no diagnostic.
\<close>

theorem diamond_resolved_twice:
  "fst (collect_methods diamond_fs ''g'' ''g/D.def'' (Some [''g/A.def'', ''g/B.def'']))
       ClientMethods = [(''m'', Args [''INT32''])]
   \<and> fst (snd (collect_methods diamond_fs ''g'' ''g/B.def'' (Some [''g/A.def''])))
       = [''g/A.def'']
   \<and> fst (collect_methods diamond_fs ''g'' ''g/D.def'' (Some [''g/A.def'', ''g/C.def'']))
       \<noteq> empty_results
   \<and> fst (collect_methods diamond_fs ''g'' ''g/C.def'' (Some [''g/A.def'']))
       ClientMethods = [(''m'', Args [''INT32''])]
   \<and> snd (snd (collect_methods diamond_fs ''g'' ''g/A.def'' None)) = []"
proof -
  have 1: "fst (collect_methods diamond_fs ''g'' ''g/D.def'' (Some [''g/A.def'', ''g/B.def'']))
       ClientMethods = [(''m'', Args [''INT32''])]"
    by code_simp
  have 2: "fst (snd (collect_methods diamond_fs ''g'' ''g/B.def'' (Some [''g/A.def''])))
       = [''g/A.def'']"
    by code_simp
  have "fst (collect_methods diamond_fs ''g'' ''g/D.def'' (Some [''g/A.def'', ''g/C.def'']))
       ClientMethods \<noteq> empty_results ClientMethods"
    by code_simp
  then have 3: "fst (collect_methods diamond_fs ''g'' ''g/D.def'' (Some [''g/A.def'', ''g/C.def'']))
       \<noteq> empty_results"
    by metis
  have 4: "fst (collect_methods diamond_fs ''g'' ''g/C.def'' (Some [''g/A.def'']))
       ClientMethods = [(''m'', Args [''INT32''])]"
    by code_simp
  have 5: "snd (snd (collect_methods diamond_fs ''g'' ''g/A.def'' None)) = []"
    by code_simp
  show ?thesis using 1 2 3 4 5 by blast
qed

text \<open>
  C2, amended: every call returns the list of visited paths as it received it (the path
  it pushed is popped on every exit path), a call whose path is in the list it receives
  returns four empty maps, the list and the cycle diagnostic, and the loop over the
  interfaces resolves every interface with the list the loop started with. So the list
  is the current call stack: a direct ancestor met again is short-circuited, a path met
  earlier in a sibling branch is not.
\<close>

theorem visited_is_call_stack:
  "fst (snd (collect_methods fs b p v0)) = or_empty v0
   \<and> (p \<in> set (or_empty v0) \<longrightarrow>
        collect_methods fs b p v0 = (empty_results, or_empty v0, [Cycle_Detected p]))
   \<and> fst (snd (snd (merge_interfaces fs b is r v))) = v
   \<and> fst (snd (merge_interfaces fs b is r v)) =
        fold (\<lambda>i acc. merge_inherited acc (inherited_from fs b v i))
          (takeWhile (\<lambda>i. el_text i \<noteq> None) is) r"
  using visited_restored(1)[of fs b p v0] visited_restored(2)[of fs b "is" r v]
    collect_methods_cycle[of p v0 fs b] merge_interfaces_results[of fs b "is" r v]
  by blast

theorem visited_is_call_stack_witness:
  "''g/A.def'' \<in> set (or_empty (Some [''g/A.def'']))
   \<and> collect_methods diamond_fs ''g'' ''g/A.def'' (Some [''g/A.def''])
       = (empty_results, [''g/A.def''], [Cycle_Detected ''g/A.def''])
   \<and> fst (snd (collect_methods diamond_fs ''g'' ''g/A.def'' None)) = []"
  using visited_is_call_stack[of diamond_fs "''g''" "''g/A.def''" "Some [''g/A.def'']"]
    visited_is_call_stack[of diamond_fs "''g''" "''g/A.def''" None]
  by simp

section \<open>Cycles\<close>

text \<open>
  C5. Resolving terminates for every definition set and every call: the call is in the
  accessible part of the call relation of \<^const>\<open>collect_methods\<close> and
  \<^const>\<open>merge_interfaces\<close>, that is, every chain of nested calls that starts at it is
  finite. A call that re-enters a path of the call stack returns four empty maps and
  prints the cycle diagnostic, with no error; the loop that made the call then goes on
  with the remaining interfaces, with the results it had, so the branches without a
  cycle contribute as they do otherwise.
\<close>

theorem cycle_safety:
  "collect_methods_merge_interfaces_dom (Inl (fs, b, p, v0))
   \<and> (p \<in> set (or_empty v0) \<longrightarrow>
        collect_methods fs b p v0 = (empty_results, or_empty v0, [Cycle_Detected p]))
   \<and> (el_text i = Some t \<and> get_def_path fs b (strip t) = Some q \<and> q \<in> set v \<longrightarrow>
        merge_interfaces fs b (i # rest) r v =
          (case merge_interfaces fs b rest r v of
             (e, r', v', out) \<Rightarrow> (e, r', v', Cycle_Detected q # out)))"
proof (intro conjI impI)
  show "collect_methods_merge_interfaces_dom (Inl (fs, b, p, v0))"
    using collect_methods_dom_all by simp
next
  assume "p \<in> set (or_empty v0)"
  then show "collect_methods fs b p v0 = (empty_results, or_empty v0, [Cycle_Detected p])"
    by (rule collect_methods_cycle)
next
  assume a: "el_text i = Some t \<and> get_def_path fs b (strip t) = Some q \<and> q \<in> set v"
  then have "collect_methods fs b q (Some v) = (empty_results, v, [Cycle_Detected q])"
    using collect_methods_cycle[of q "Some v" fs b] by simp
  then show "merge_interfaces fs b (i # rest) r v =
      (case merge_interfaces fs b rest r v of
         (e, r', v', out) \<Rightarrow> (e, r', v', Cycle_Detected q # out))"
    using a by (simp add: merge_interfaces_found)
qed

theorem cycle_safety_witness:
  "''g/A.def'' \<in> set (or_empty (Some [''g/A.def'', ''g/B.def'']))
   \<and> el_text (Element ''Interface'' (Some ''A'') []) = Some ''A''
   \<and> get_def_path cycle_fs ''g'' (strip ''A'') = Some ''g/A.def''
   \<and> collect_methods cycle_fs ''g'' ''g/A.def'' (Some [''g/A.def'', ''g/B.def''])
       = (empty_results, [''g/A.def'', ''g/B.def''], [Cycle_Detected ''g/A.def''])
   \<and> merge_interfaces cycle_fs ''g'' [Element ''Interface'' (Some ''A'') []] empty_results
         [''g/A.def'', ''g/B.def'']
       = (None, empty_results, [''g/A.def'', ''g/B.def''], [Cycle_Detected ''g/A.def''])
   \<and> fst (collect_methods cycle_fs ''g'' ''g/A.def'' None) ClientMethods
       = [(''mb'', Args [''INT8'']), (''mc'', Args [''INT16'']), (''ma'', Args [''INT32''])]
   \<and> snd (snd (collect_methods cycle_fs ''g'' ''g/A.def'' None)) = [Cycle_Detected ''g/A.def'']"
proof -
  have h: "el_text (Element ''Interface'' (Some ''A'') []) = Some ''A''
      \<and> get_def_path cycle_fs ''g'' (strip ''A'') = Some ''g/A.def''
      \<and> ''g/A.def'' \<in> set [''g/A.def'', ''g/B.def'']"
    by code_simp
  have e: "fst (collect_methods cycle_fs ''g'' ''g/A.def'' None) ClientMethods
       = [(''mb'', Args [''INT8'']), (''mc'', Args [''INT16'']), (''ma'', Args [''INT32''])]
     \<and> snd (snd (collect_methods cycle_fs ''g'' ''g/A.def'' None)) = [Cycle_Detected ''g/A.def'']"
    by code_simp
  show ?thesis
    using h e
      cycle_safety[of cycle_fs "''g''" "''g/A.def''" "Some [''g/A.def'', ''g/B.def'']"
        "Element ''Interface'' (Some ''A'') []" "''A''" "''g/A.def''"
        "[''g/A.def'', ''g/B.def'']" "[]" empty_results]
    by simp
qed

section \<open>Failures while parsing and processing\<close>

lemma collect_methods_processing_error:
  assumes fresh: "p \<notin> set (or_empty v0)" and root: "parse fs p = Some root"
    and bad: "\<not> (\<forall>i\<in>set (interfaces_of root). el_text i \<noteq> None)"
  shows "fst (collect_methods fs b p v0) =
           fold (\<lambda>i acc. merge_inherited acc (inherited_from fs b (or_empty v0 @ [p]) i))
             (takeWhile (\<lambda>i. el_text i \<noteq> None) (interfaces_of root)) empty_results"
    and "snd (snd (collect_methods fs b p v0)) \<noteq> []"
    and "last (snd (snd (collect_methods fs b p v0))) = Error_failed p"
proof -
  obtain e r v out where m:
    "merge_interfaces fs b (interfaces_of root) empty_results (or_empty v0 @ [p]) = (e, r, v, out)"
    by (cases "merge_interfaces fs b (interfaces_of root) empty_results (or_empty v0 @ [p])") auto
  have e: "e = Some AttributeError"
    using merge_interfaces_exn[of fs b "interfaces_of root" empty_results "or_empty v0 @ [p]"] m bad
    by simp
  have r: "r = fold (\<lambda>i acc. merge_inherited acc (inherited_from fs b (or_empty v0 @ [p]) i))
             (takeWhile (\<lambda>i. el_text i \<noteq> None) (interfaces_of root)) empty_results"
    using merge_interfaces_results[of fs b "interfaces_of root" empty_results "or_empty v0 @ [p]"] m
    by simp
  have c: "collect_methods fs b p v0 = (r, or_empty v0, out @ [Error_failed p])"
    using collect_methods_parsed[OF fresh root, of b] m e by simp
  show "fst (collect_methods fs b p v0) =
           fold (\<lambda>i acc. merge_inherited acc (inherited_from fs b (or_empty v0 @ [p]) i))
             (takeWhile (\<lambda>i. el_text i \<noteq> None) (interfaces_of root)) empty_results"
    using c r by simp
  show "snd (snd (collect_methods fs b p v0)) \<noteq> []" using c by simp
  show "last (snd (snd (collect_methods fs b p v0))) = Error_failed p" using c by simp
qed

text \<open>
  C7. The specification says that a node whose content fails to parse or to process
  contributes four empty maps, never a partial result, and that the failure stays
  local. The failure does stay local, and a file that does not parse does contribute
  four empty maps. But the first loop calls \<^verbatim>\<open>interface.text.strip()\<close> without the test
  for a missing text that the program makes wherever else it strips a text (the
  version, \<^verbatim>\<open>Type\<close>, \<^verbatim>\<open>Arg\<close>), so an \<^verbatim>\<open>Interface\<close> element without text raises in the
  middle of the processing; the handler reports a failure to parse and leaves in
  \<^verbatim>\<open>results\<close> what was merged before. \<^verbatim>\<open>X.def\<close> parses; its second \<^verbatim>\<open>Interface\<close> element
  has no text, the call raises after \<^verbatim>\<open>Good\<close> has been merged, prints the error and
  returns the member inherited from \<^verbatim>\<open>Good\<close>, without \<^verbatim>\<open>Late\<close> and without the local
  declaration: a partial result, not four empty maps.
\<close>

theorem processing_failure_partial_result:
  "parse broken_fs ''g/X.def'' \<noteq> None
   \<and> fst (merge_interfaces broken_fs ''g''
        (interfaces_of (the (parse broken_fs ''g/X.def''))) empty_results [''g/X.def''])
       = Some AttributeError
   \<and> fst (collect_methods broken_fs ''g'' ''g/X.def'' None) ClientMethods
       = [(''m'', Args [''INT8''])]
   \<and> fst (collect_methods broken_fs ''g'' ''g/X.def'' None) \<noteq> empty_results
   \<and> snd (snd (collect_methods broken_fs ''g'' ''g/X.def'' None)) = [Error_failed ''g/X.def'']"
proof -
  have 1: "parse broken_fs ''g/X.def'' \<noteq> None"
    by code_simp
  have 2: "fst (merge_interfaces broken_fs ''g''
        (interfaces_of (the (parse broken_fs ''g/X.def''))) empty_results [''g/X.def''])
       = Some AttributeError"
    by code_simp
  have 3: "fst (collect_methods broken_fs ''g'' ''g/X.def'' None) ClientMethods
       = [(''m'', Args [''INT8''])]"
    by code_simp
  have "fst (collect_methods broken_fs ''g'' ''g/X.def'' None) ClientMethods
       \<noteq> empty_results ClientMethods"
    by code_simp
  then have 4: "fst (collect_methods broken_fs ''g'' ''g/X.def'' None) \<noteq> empty_results"
    by metis
  have 5: "snd (snd (collect_methods broken_fs ''g'' ''g/X.def'' None)) = [Error_failed ''g/X.def'']"
    by code_simp
  show ?thesis using 1 2 3 4 5 by blast
qed

text \<open>
  What the handler does on every definition set. A file that \<^verbatim>\<open>ET.parse\<close> rejects
  contributes four empty maps and the error is printed. A file that parses and has an
  \<^verbatim>\<open>Interface\<close> element without text returns what the interfaces before that element
  gave, and nothing else; the error is the last line printed. In both cases the call
  returns with the list of visited paths as it received it: the loop of the caller
  goes on with the next interface, and the loop over the entities with the next entity.
\<close>

theorem failure_caught_locally:
  "(p \<notin> set (or_empty v0) \<and> parse fs p = None \<longrightarrow>
      collect_methods fs b p v0 = (empty_results, or_empty v0, [Error_failed p]))
   \<and> (p \<notin> set (or_empty v0) \<and> parse fs p = Some root
        \<and> \<not> (\<forall>i\<in>set (interfaces_of root). el_text i \<noteq> None) \<longrightarrow>
      fst (collect_methods fs b p v0) =
        fold (\<lambda>i acc. merge_inherited acc (inherited_from fs b (or_empty v0 @ [p]) i))
          (takeWhile (\<lambda>i. el_text i \<noteq> None) (interfaces_of root)) empty_results
      \<and> fst (snd (collect_methods fs b p v0)) = or_empty v0
      \<and> last (snd (snd (collect_methods fs b p v0))) = Error_failed p)
   \<and> (el_text i = Some t \<and> get_def_path fs b (strip t) = Some q \<and> q \<notin> set v
        \<and> parse fs q = None \<longrightarrow>
      merge_interfaces fs b (i # rest) r v =
        (case merge_interfaces fs b rest r v of
           (e, r', v', out) \<Rightarrow> (e, r', v', Error_failed q # out)))
   \<and> (get_def_path fs b n = Some q \<and> parse fs q = None \<longrightarrow>
      process_entities fs b ((k, n) # entity_types) =
        make_entity_json k n empty_results # process_entities fs b entity_types)"
proof (intro conjI impI)
  assume "p \<notin> set (or_empty v0) \<and> parse fs p = None"
  then show "collect_methods fs b p v0 = (empty_results, or_empty v0, [Error_failed p])"
    by (simp add: collect_methods_parse_error)
next
  assume a: "p \<notin> set (or_empty v0) \<and> parse fs p = Some root
        \<and> \<not> (\<forall>i\<in>set (interfaces_of root). el_text i \<noteq> None)"
  then show "fst (collect_methods fs b p v0) =
        fold (\<lambda>i acc. merge_inherited acc (inherited_from fs b (or_empty v0 @ [p]) i))
          (takeWhile (\<lambda>i. el_text i \<noteq> None) (interfaces_of root)) empty_results"
    using collect_methods_processing_error(1)[of p v0 fs root b] by blast
  show "fst (snd (collect_methods fs b p v0)) = or_empty v0"
    by (rule visited_restored(1))
  show "last (snd (snd (collect_methods fs b p v0))) = Error_failed p"
    using a collect_methods_processing_error(3)[of p v0 fs root b] by blast
next
  assume a: "el_text i = Some t \<and> get_def_path fs b (strip t) = Some q \<and> q \<notin> set v
        \<and> parse fs q = None"
  then have "collect_methods fs b q (Some v) = (empty_results, v, [Error_failed q])"
    using collect_methods_parse_error[of q "Some v" fs b] by simp
  then show "merge_interfaces fs b (i # rest) r v =
        (case merge_interfaces fs b rest r v of
           (e, r', v', out) \<Rightarrow> (e, r', v', Error_failed q # out))"
    using a by (simp add: merge_interfaces_found)
next
  assume a: "get_def_path fs b n = Some q \<and> parse fs q = None"
  then have "collect_methods fs b q None = (empty_results, [], [Error_failed q])"
    using collect_methods_parse_error[of q None fs b] by simp
  then show "process_entities fs b ((k, n) # entity_types) =
        make_entity_json k n empty_results # process_entities fs b entity_types"
    using a by simp
qed

theorem failure_caught_locally_witness:
  "''g/Bad.def'' \<notin> set (or_empty None) \<and> parse broken_fs ''g/Bad.def'' = None
   \<and> collect_methods broken_fs ''g'' ''g/Bad.def'' None
       = (empty_results, [], [Error_failed ''g/Bad.def''])
   \<and> parse broken_fs ''g/X.def'' = Some (the (parse broken_fs ''g/X.def''))
   \<and> \<not> (\<forall>i\<in>set (interfaces_of (the (parse broken_fs ''g/X.def''))). el_text i \<noteq> None)
   \<and> fst (collect_methods broken_fs ''g'' ''g/X.def'' None) =
        fold (\<lambda>i acc. merge_inherited acc (inherited_from broken_fs ''g'' [''g/X.def''] i))
          (takeWhile (\<lambda>i. el_text i \<noteq> None)
             (interfaces_of (the (parse broken_fs ''g/X.def'')))) empty_results
   \<and> last (snd (snd (collect_methods broken_fs ''g'' ''g/X.def'' None))) = Error_failed ''g/X.def''
   \<and> get_def_path broken_fs ''g'' (strip ''Bad'') = Some ''g/Bad.def''
   \<and> merge_interfaces broken_fs ''g'' [Element ''Interface'' (Some ''Bad'') []] empty_results
         [''g/Y.def'']
       = (None, empty_results, [''g/Y.def''], [Error_failed ''g/Bad.def''])
   \<and> process_entities broken_fs ''g'' [(0, ''Bad'')] = [make_entity_json 0 ''Bad'' empty_results]
   \<and> fst (collect_methods broken_fs ''g'' ''g/Y.def'' None) ClientMethods
       = [(''m'', Args [''INT8''])]"
proof -
  have h1: "''g/Bad.def'' \<notin> set (or_empty None) \<and> parse broken_fs ''g/Bad.def'' = None"
    by code_simp
  have h2: "''g/X.def'' \<notin> set (or_empty None)
      \<and> parse broken_fs ''g/X.def'' = Some (the (parse broken_fs ''g/X.def''))
      \<and> \<not> (\<forall>i\<in>set (interfaces_of (the (parse broken_fs ''g/X.def''))). el_text i \<noteq> None)"
    by code_simp
  have h3: "el_text (Element ''Interface'' (Some ''Bad'') []) = Some ''Bad''
      \<and> get_def_path broken_fs ''g'' (strip ''Bad'') = Some ''g/Bad.def''
      \<and> ''g/Bad.def'' \<notin> set [''g/Y.def'']"
    by code_simp
  have h4: "strip ''Bad'' = ''Bad''"
    by code_simp
  have e: "fst (collect_methods broken_fs ''g'' ''g/Y.def'' None) ClientMethods
       = [(''m'', Args [''INT8''])]"
    by code_simp
  show ?thesis
    using h1 h2 h3 h4 e
      failure_caught_locally[of "''g/Bad.def''" None broken_fs "''g''"
        "the (parse broken_fs ''g/X.def'')" "Element ''Interface'' (Some ''Bad'') []"
        "''Bad''" "''g/Bad.def''" "[''g/Y.def'']" "[]" empty_results "''Bad''" 0 "[]"]
      failure_caught_locally[of "''g/X.def''" None broken_fs "''g''"
        "the (parse broken_fs ''g/X.def'')" "Element ''Interface'' (Some ''Bad'') []"
        "''Bad''" "''g/Bad.def''" "[''g/Y.def'']" "[]" empty_results "''Bad''" 0 "[]"]
    by simp
qed

section \<open>Interfaces and entities without a definition file\<close>

lemma merge_interfaces_skip:
  assumes "inherited_from fs b v i = empty_results" and "el_text i \<noteq> None"
  shows "fst (merge_interfaces fs b (pre @ i # post) r v)
           = fst (merge_interfaces fs b (pre @ post) r v)"
    and "fst (snd (merge_interfaces fs b (pre @ i # post) r v))
           = fst (snd (merge_interfaces fs b (pre @ post) r v))"
proof -
  show "fst (merge_interfaces fs b (pre @ i # post) r v)
           = fst (merge_interfaces fs b (pre @ post) r v)"
    using assms(2) by (simp add: merge_interfaces_exn)
  show "fst (snd (merge_interfaces fs b (pre @ i # post) r v))
           = fst (snd (merge_interfaces fs b (pre @ post) r v))"
  proof (cases "\<forall>x\<in>set pre. el_text x \<noteq> None")
    case True
    then show ?thesis using assms
      by (simp add: merge_interfaces_results takeWhile_append2)
  next
    case False
    then obtain x where "x \<in> set pre" "\<not> el_text x \<noteq> None" by blast
    then show ?thesis
      by (simp add: merge_interfaces_results takeWhile_append1)
  qed
qed

text \<open>
  C8. An \<^verbatim>\<open>Interface\<close> element whose name resolves to no file contributes four empty
  maps; the loop prints the warning and goes on with the remaining interfaces, and
  neither the exception state nor the results of the whole loop differ from those of
  the loop without that element, wherever the element stands. An entity without a
  definition file is skipped and the remaining entities are processed.
\<close>

theorem not_found_non_fatal:
  "(el_text i = Some t \<and> get_def_path fs b (strip t) = None \<longrightarrow>
      inherited_from fs b v i = empty_results
      \<and> merge_interfaces fs b (i # rest) r v =
          (case merge_interfaces fs b rest r v of
             (e, r', v', out) \<Rightarrow> (e, r', v', Warning_not_found (strip t) # out))
      \<and> fst (merge_interfaces fs b (pre @ i # post) r v)
          = fst (merge_interfaces fs b (pre @ post) r v)
      \<and> fst (snd (merge_interfaces fs b (pre @ i # post) r v))
          = fst (snd (merge_interfaces fs b (pre @ post) r v)))
   \<and> (get_def_path fs b n = None \<longrightarrow>
      process_entities fs b ((k, n) # entity_types) = process_entities fs b entity_types)"
proof (intro conjI impI)
  assume a: "el_text i = Some t \<and> get_def_path fs b (strip t) = None"
  then show inh: "inherited_from fs b v i = empty_results"
    by (simp add: inherited_from_def)
  show "merge_interfaces fs b (i # rest) r v =
          (case merge_interfaces fs b rest r v of
             (e, r', v', out) \<Rightarrow> (e, r', v', Warning_not_found (strip t) # out))"
    using a by simp
  have t: "el_text i \<noteq> None" using a by simp
  show "fst (merge_interfaces fs b (pre @ i # post) r v)
          = fst (merge_interfaces fs b (pre @ post) r v)"
    by (rule merge_interfaces_skip(1)[OF inh t])
  show "fst (snd (merge_interfaces fs b (pre @ i # post) r v))
          = fst (snd (merge_interfaces fs b (pre @ post) r v))"
    by (rule merge_interfaces_skip(2)[OF inh t])
next
  assume "get_def_path fs b n = None"
  then show "process_entities fs b ((k, n) # entity_types) = process_entities fs b entity_types"
    by simp
qed

theorem not_found_non_fatal_witness:
  "el_text (Element ''Interface'' (Some ''Missing'') []) = Some ''Missing''
   \<and> get_def_path broken_fs ''g'' (strip ''Missing'') = None
   \<and> merge_interfaces broken_fs ''g''
        [Element ''Interface'' (Some ''Missing'') [], Element ''Interface'' (Some ''Good'') []]
        empty_results [''g/Y.def'']
       = (case merge_interfaces broken_fs ''g'' [Element ''Interface'' (Some ''Good'') []]
                 empty_results [''g/Y.def''] of
            (e, r', v', out) \<Rightarrow> (e, r', v', Warning_not_found (strip ''Missing'') # out))
   \<and> fst (snd (merge_interfaces broken_fs ''g''
        [Element ''Interface'' (Some ''Missing'') [], Element ''Interface'' (Some ''Good'') []]
        empty_results [''g/Y.def''])) ClientMethods = [(''m'', Args [''INT8''])]
   \<and> snd (snd (collect_methods broken_fs ''g'' ''g/Y.def'' None))
       = [Error_failed ''g/Bad.def'', Warning_not_found ''Missing'']
   \<and> process_entities broken_fs ''g'' [(1, ''Missing''), (2, ''Good'')]
       = process_entities broken_fs ''g'' [(2, ''Good'')]
   \<and> map ent_id (process_entities broken_fs ''g'' [(1, ''Missing''), (2, ''Good'')]) = [2]"
proof -
  have h: "el_text (Element ''Interface'' (Some ''Missing'') []) = Some ''Missing''
      \<and> get_def_path broken_fs ''g'' (strip ''Missing'') = None
      \<and> get_def_path broken_fs ''g'' ''Missing'' = None"
    by code_simp
  have e1: "fst (snd (merge_interfaces broken_fs ''g''
        [Element ''Interface'' (Some ''Missing'') [], Element ''Interface'' (Some ''Good'') []]
        empty_results [''g/Y.def''])) ClientMethods = [(''m'', Args [''INT8''])]"
    by code_simp
  have e2: "snd (snd (collect_methods broken_fs ''g'' ''g/Y.def'' None))
       = [Error_failed ''g/Bad.def'', Warning_not_found ''Missing'']"
    by code_simp
  have e3: "map ent_id (process_entities broken_fs ''g'' [(1, ''Missing''), (2, ''Good'')]) = [2]"
    by code_simp
  show ?thesis
    using h e1 e2 e3
      not_found_non_fatal[of "Element ''Interface'' (Some ''Missing'') []" "''Missing''"
        broken_fs "''g''" "[''g/Y.def'']" "[Element ''Interface'' (Some ''Good'') []]"
        empty_results "[]" "[Element ''Interface'' (Some ''Good'') []]" "''Missing''" 1
        "[(2, ''Good'')]"]
    by (simp del: merge_interfaces.simps process_entities.simps)
qed

section \<open>A call that parses its file and finishes both loops\<close>

lemma fold_merge_inherited_apply:
  "fold (\<lambda>i acc. merge_inherited acc (f i)) is r sec =
     fold (\<lambda>i d. dict_update d (f i sec)) is (r sec)"
  by (induction "is" arbitrary: r) (simp_all add: merge_inherited_def)

lemma map_of_fold_dict_update:
  assumes "\<And>i. distinct (map fst (g i))"
  shows "map_of (fold (\<lambda>i d. dict_update d (g i)) is d0) =
     foldl (++) (map_of d0) (map (\<lambda>i. map_of (g i)) is)"
  using assms
  by (induction "is" arbitrary: d0) (simp_all add: map_of_dict_update map_of_rev_distinct)

lemma distinct_inherited_from: "distinct (map fst (inherited_from fs b v i sec))"
  by (simp add: inherited_from_def empty_results_def distinct_results split: option.splits)

lemma collect_methods_merged:
  assumes "p \<notin> set (or_empty v0)" and "parse fs p = Some root"
    and "\<forall>i\<in>set (interfaces_of root). el_text i \<noteq> None"
  shows "fst (collect_methods fs b p v0) sec =
     dict_update
       (fold (\<lambda>i d. dict_update d (inherited_from fs b (or_empty v0 @ [p]) i sec))
          (interfaces_of root) [])
       (surviving sec root)"
proof -
  obtain e r v out where m:
    "merge_interfaces fs b (interfaces_of root) empty_results (or_empty v0 @ [p]) = (e, r, v, out)"
    by (cases "merge_interfaces fs b (interfaces_of root) empty_results (or_empty v0 @ [p])") auto
  have e: "e = None"
    using merge_interfaces_exn[of fs b "interfaces_of root" empty_results "or_empty v0 @ [p]"]
      m assms(3) by simp
  have tw: "takeWhile (\<lambda>i. el_text i \<noteq> None) (interfaces_of root) = interfaces_of root"
    using assms(3) by (simp add: takeWhile_eq_all_conv)
  have "fst (snd (merge_interfaces fs b (interfaces_of root) empty_results (or_empty v0 @ [p])))
      = fold (\<lambda>i acc. merge_inherited acc (inherited_from fs b (or_empty v0 @ [p]) i))
          (takeWhile (\<lambda>i. el_text i \<noteq> None) (interfaces_of root)) empty_results"
    by (rule merge_interfaces_results)
  then have "fst (snd (merge_interfaces fs b (interfaces_of root) empty_results
        (or_empty v0 @ [p])))
      = fold (\<lambda>i acc. merge_inherited acc (inherited_from fs b (or_empty v0 @ [p]) i))
          (interfaces_of root) empty_results"
    by (simp only: tw)
  then have r: "r = fold (\<lambda>i acc. merge_inherited acc
        (inherited_from fs b (or_empty v0 @ [p]) i)) (interfaces_of root) empty_results"
    using m by simp
  have "fst (collect_methods fs b p v0) = process_local root r"
    using collect_methods_parsed[OF assms(1,2), of b] m e by simp
  then show ?thesis
    by (simp add: process_local_eq r fold_merge_inherited_apply empty_results_def)
qed

lemma map_of_unique_value:
  assumes "(k, d) \<in> set xs" and "\<forall>(k', d') \<in> set xs. k' = k \<longrightarrow> d' = d"
  shows "map_of xs k = Some d"
proof -
  have "k \<in> fst ` set xs" using assms(1) by force
  then obtain d' where d': "map_of xs k = Some d'"
    by (cases "map_of xs k") (auto simp: map_of_eq_None_iff)
  then have "(k, d') \<in> set xs" by (rule map_of_SomeD)
  then show ?thesis using assms(2) d' by auto
qed

lemma map_of_rev_surviving_only:
  assumes "c \<in> set (local_declarations sec root)" and "\<not> is_excluded c"
    and "\<forall>c'\<in>set (local_declarations sec root). tag c' = tag c \<longrightarrow> c' = c \<or> is_excluded c'"
  shows "map_of (rev (surviving sec root)) (tag c) = Some (describe sec c)"
proof (rule map_of_unique_value)
  show "(tag c, describe sec c) \<in> set (rev (surviving sec root))"
    using assms(1,2) by (auto simp: surviving_def)
  show "\<forall>(k', d')\<in>set (rev (surviving sec root)). k' = tag c \<longrightarrow> d' = describe sec c"
    using assms(3) by (auto simp: surviving_def)
qed

lemma map_of_rev_surviving_last:
  assumes "local_declarations sec root = pre @ c # post" and "\<not> is_excluded c"
    and "\<forall>c'\<in>set post. tag c' = tag c \<longrightarrow> is_excluded c'"
  shows "map_of (rev (surviving sec root)) (tag c) = Some (describe sec c)"
proof -
  let ?f = "\<lambda>child. (tag child, describe sec child)"
  let ?post = "map ?f (filter (\<lambda>child. \<not> is_excluded child) post)"
  let ?pre = "map ?f (filter (\<lambda>child. \<not> is_excluded child) pre)"
  have s: "rev (surviving sec root) = rev ?post @ (tag c, describe sec c) # rev ?pre"
    using assms(1,2) by (simp add: surviving_def)
  have "tag c \<notin> fst ` set (rev ?post)" using assms(3) by auto
  then have "map_of (rev ?post) (tag c) = None" by (simp add: map_of_eq_None_iff)
  then show ?thesis by (simp add: s map_add_def)
qed

lemma map_of_rev_surviving_none:
  assumes "\<forall>c\<in>set (local_declarations sec root). tag c = n \<longrightarrow> is_excluded c"
  shows "map_of (rev (surviving sec root)) n = None"
proof -
  have "n \<notin> fst ` set (rev (surviving sec root))" using assms by (auto simp: surviving_def)
  then show ?thesis by (simp add: map_of_eq_None_iff)
qed

lemma filter_key_distinct:
  "distinct (map fst xs) \<Longrightarrow> map_of xs k = Some d \<Longrightarrow> filter (\<lambda>e. fst e = k) xs = [(k, d)]"
proof (induction xs)
  case Nil
  then show ?case by simp
next
  case (Cons a xs)
  show ?case
  proof (cases "fst a = k")
    case True
    have "k \<notin> fst ` set xs" using True Cons.prems(1) by auto
    then have "\<forall>e\<in>set xs. fst e \<noteq> k" by force
    then have "filter (\<lambda>e. fst e = k) xs = []"
      by (simp add: filter_empty_conv)
    then show ?thesis using True Cons.prems(2) by (cases a) auto
  next
    case False
    then show ?thesis using Cons by (cases a) auto
  qed
qed

section \<open>Merge precedence\<close>

text \<open>
  For a call that is not short-circuited, whose file parses and whose \<^verbatim>\<open>Interface\<close>
  elements all have text, each category map is the dict built by merging the results of
  the interfaces in document order into the empty dict and then writing the surviving
  local declarations: inherited entries are inserted before local ones. Read as maps,
  the result is the maps of the interfaces overridden from left to right (a later
  interface wins over an earlier one) and then overridden by the local declarations.
  In particular a local declaration that is not excluded, and is the only such
  declaration of its name in the file, gives the entry of that name its own descriptor,
  whatever the interfaces declare under the name.
\<close>

theorem merge_precedence:
  assumes "def_path \<notin> set (or_empty visited0)"
    and "parse fs def_path = Some root"
    and "\<forall>i\<in>set (interfaces_of root). el_text i \<noteq> None"
  shows "fst (collect_methods fs b def_path visited0) sec =
           dict_update
             (fold (\<lambda>i d. dict_update d
                      (inherited_from fs b (or_empty visited0 @ [def_path]) i sec))
                (interfaces_of root) [])
             (surviving sec root)
         \<and> map_of (fst (collect_methods fs b def_path visited0) sec) =
             foldl (++) Map.empty
               (map (\<lambda>i. map_of (inherited_from fs b (or_empty visited0 @ [def_path]) i sec))
                  (interfaces_of root))
             ++ map_of (rev (surviving sec root))
         \<and> (\<forall>c\<in>set (local_declarations sec root).
               \<not> is_excluded c
               \<and> (\<forall>c'\<in>set (local_declarations sec root).
                     tag c' = tag c \<longrightarrow> c' = c \<or> is_excluded c')
               \<longrightarrow> map_of (fst (collect_methods fs b def_path visited0) sec) (tag c)
                     = Some (describe sec c))"
proof -
  have l: "fst (collect_methods fs b def_path visited0) sec =
           dict_update
             (fold (\<lambda>i d. dict_update d
                      (inherited_from fs b (or_empty visited0 @ [def_path]) i sec))
                (interfaces_of root) [])
             (surviving sec root)"
    by (rule collect_methods_merged[OF assms])
  have m: "map_of (fst (collect_methods fs b def_path visited0) sec) =
             foldl (++) Map.empty
               (map (\<lambda>i. map_of (inherited_from fs b (or_empty visited0 @ [def_path]) i sec))
                  (interfaces_of root))
             ++ map_of (rev (surviving sec root))"
    by (simp add: l map_of_dict_update map_of_fold_dict_update distinct_inherited_from)
  have "\<forall>c\<in>set (local_declarations sec root).
               \<not> is_excluded c
               \<and> (\<forall>c'\<in>set (local_declarations sec root).
                     tag c' = tag c \<longrightarrow> c' = c \<or> is_excluded c')
               \<longrightarrow> map_of (fst (collect_methods fs b def_path visited0) sec) (tag c)
                     = Some (describe sec c)"
    using map_of_rev_surviving_only[of _ sec root] by (simp add: m map_add_def)
  then show ?thesis using l m by blast
qed

theorem merge_precedence_witness:
  "''g/Vehicle.def'' \<notin> set (or_empty None)
   \<and> parse vehicle_fs ''g/Vehicle.def'' = Some (the (parse vehicle_fs ''g/Vehicle.def''))
   \<and> list_all (\<lambda>i. el_text i \<noteq> None)
        (interfaces_of (the (parse vehicle_fs ''g/Vehicle.def'')))
   \<and> fst (collect_methods vehicle_fs ''g'' ''g/Vehicle.def'' None) ClientMethods =
        dict_update
          (fold (\<lambda>i d. dict_update d (inherited_from vehicle_fs ''g'' [''g/Vehicle.def''] i
                   ClientMethods))
             (interfaces_of (the (parse vehicle_fs ''g/Vehicle.def''))) [])
          (surviving ClientMethods (the (parse vehicle_fs ''g/Vehicle.def'')))
   \<and> fst (collect_methods vehicle_fs ''g'' ''g/Vehicle.def'' None) ClientMethods =
        [(''takeDamage'', Args [''INT32'', ''STRING'']), (''repair'', Args [''INT16'']),
         (''heal'', Args [''INT8''])]
   \<and> fst (collect_methods vehicle_fs ''g'' ''g/Damageable.def'' (Some [''g/Vehicle.def'']))
        ClientMethods =
        [(''takeDamage'', Args [''INT32'']), (''repair'', Args [''INT8'']),
         (''heal'', Args [''INT8''])]"
proof -
  have h1: "''g/Vehicle.def'' \<notin> set (or_empty None)"
    by simp
  have h2: "parse vehicle_fs ''g/Vehicle.def'' = Some (the (parse vehicle_fs ''g/Vehicle.def''))"
    by code_simp
  have h3: "\<forall>i\<in>set (interfaces_of (the (parse vehicle_fs ''g/Vehicle.def''))). el_text i \<noteq> None"
    by code_simp
  have e1: "fst (collect_methods vehicle_fs ''g'' ''g/Vehicle.def'' None) ClientMethods =
        [(''takeDamage'', Args [''INT32'', ''STRING'']), (''repair'', Args [''INT16'']),
         (''heal'', Args [''INT8''])]"
    by code_simp
  have e2: "fst (collect_methods vehicle_fs ''g'' ''g/Damageable.def'' (Some [''g/Vehicle.def'']))
        ClientMethods =
        [(''takeDamage'', Args [''INT32'']), (''repair'', Args [''INT8'']),
         (''heal'', Args [''INT8''])]"
    by code_simp
  show ?thesis
    using h1 h2 h3 e1 e2
      merge_precedence[OF h1 h2 h3, of "''g''" ClientMethods, THEN conjunct1]
    by (simp add: list_all_iff)
qed

text \<open>
  C3. The specification says that inherited entries are inserted before the local ones,
  that a later interface overrides an earlier one, and that a local declaration replaces
  an inherited one of the same name: if an interface declares \<^verbatim>\<open>m\<close> and the entity declares
  a non-excluded \<^verbatim>\<open>m\<close> itself, the entry \<^verbatim>\<open>m\<close> carries the local argument list. The program
  does so whenever its first loop ends without an exception. An \<^verbatim>\<open>Interface\<close> element
  without text makes the unguarded \<^verbatim>\<open>interface.text.strip()\<close> of the first loop raise, and
  then the loop over the local declarations never runs. \<^verbatim>\<open>E\<close> implements \<^verbatim>\<open>I\<close>, which
  declares \<^verbatim>\<open>m(INT8)\<close>, has a second \<^verbatim>\<open>Interface\<close> element without text, and declares
  \<^verbatim>\<open>m(INT16)\<close> itself: the entry \<^verbatim>\<open>m\<close> of \<^verbatim>\<open>E\<close> carries the argument list of the
  interface, not the local one.
\<close>

theorem local_override_lost:
  "get_def_path override_fs ''g'' ''E'' = Some ''g/E.def''
   \<and> fst (collect_methods override_fs ''g'' ''g/I.def'' (Some [''g/E.def''])) ClientMethods
       = [(''m'', Args [''INT8''])]
   \<and> local_declarations ClientMethods (the (parse override_fs ''g/E.def''))
       = [Element ''m'' None [Element ''Arg'' (Some ''INT16'') []]]
   \<and> fst (collect_methods override_fs ''g'' ''g/E.def'' None) ClientMethods
       = [(''m'', Args [''INT8''])]
   \<and> map_of (fst (collect_methods override_fs ''g'' ''g/E.def'' None) ClientMethods) ''m''
       \<noteq> Some (Args [''INT16''])
   \<and> snd (snd (collect_methods override_fs ''g'' ''g/E.def'' None)) = [Error_failed ''g/E.def'']"
  by code_simp

section \<open>Exclusion\<close>

text \<open>
  C4. Every entry of every category map that a call returns was written from a
  declaration of some parsed file of the definition set, under the same section, that has
  at least one \<^verbatim>\<open>Arg\<close> child and no \<^verbatim>\<open>DetailDistance\<close> child: a declaration without
  arguments, or with a detail-distance marker whatever its arguments, is never the
  source of an entry, whether it is local or reached through interfaces. When every local
  declaration of a name is excluded, nothing is written under that name, and the entry
  of that name is what the interfaces gave. A declaration is excluded exactly when it
  has no \<^verbatim>\<open>Arg\<close> child or has a \<^verbatim>\<open>DetailDistance\<close> child.
\<close>

theorem excluded_declarations_absent:
  "(\<forall>(n, d) \<in> set (fst (collect_methods fs b p v0) sec).
      \<exists>root c. Some root \<in> snd ` set fs \<and> c \<in> set (local_declarations sec root)
        \<and> tag c = n \<and> d = describe sec c
        \<and> findall ''Arg'' c \<noteq> [] \<and> find_elem ''DetailDistance'' c = None)
   \<and> (p \<notin> set (or_empty v0) \<and> parse fs p = Some root'
       \<and> (\<forall>i\<in>set (interfaces_of root'). el_text i \<noteq> None)
       \<and> (\<forall>c\<in>set (local_declarations sec root'). tag c = n \<longrightarrow> is_excluded c)
       \<longrightarrow> map_of (fst (collect_methods fs b p v0) sec) n =
             foldl (++) Map.empty
               (map (\<lambda>i. map_of (inherited_from fs b (or_empty v0 @ [p]) i sec))
                  (interfaces_of root')) n)
   \<and> (is_excluded c \<longleftrightarrow> findall ''Arg'' c = [] \<or> find_elem ''DetailDistance'' c \<noteq> None)"
proof (intro conjI impI)
  show "\<forall>(n, d) \<in> set (fst (collect_methods fs b p v0) sec).
      \<exists>root c. Some root \<in> snd ` set fs \<and> c \<in> set (local_declarations sec root)
        \<and> tag c = n \<and> d = describe sec c
        \<and> findall ''Arg'' c \<noteq> [] \<and> find_elem ''DetailDistance'' c = None"
  proof (clarify)
    fix n d
    assume "(n, d) \<in> set (fst (collect_methods fs b p v0) sec)"
    then obtain root where root: "Some root \<in> snd ` set fs" "(n, d) \<in> set (surviving sec root)"
      using results_provenance[of fs b p v0 sec] by blast
    then obtain c where c: "c \<in> set (local_declarations sec root)" "tag c = n"
        "d = describe sec c" "\<not> is_excluded c"
      by (auto simp: surviving_set)
    then have "findall ''Arg'' c \<noteq> [] \<and> find_elem ''DetailDistance'' c = None"
      by (simp add: is_excluded_def)
    then show "\<exists>root c. Some root \<in> snd ` set fs \<and> c \<in> set (local_declarations sec root)
        \<and> tag c = n \<and> d = describe sec c
        \<and> findall ''Arg'' c \<noteq> [] \<and> find_elem ''DetailDistance'' c = None"
      using root(1) c by blast
  qed
next
  assume a: "p \<notin> set (or_empty v0) \<and> parse fs p = Some root'
       \<and> (\<forall>i\<in>set (interfaces_of root'). el_text i \<noteq> None)
       \<and> (\<forall>c\<in>set (local_declarations sec root'). tag c = n \<longrightarrow> is_excluded c)"
  then have l: "fst (collect_methods fs b p v0) sec =
     dict_update
       (fold (\<lambda>i d. dict_update d (inherited_from fs b (or_empty v0 @ [p]) i sec))
          (interfaces_of root') [])
       (surviving sec root')"
    using collect_methods_merged[of p v0 fs root' b sec] by blast
  have "map_of (rev (surviving sec root')) n = None"
    using a by (intro map_of_rev_surviving_none) blast
  then show "map_of (fst (collect_methods fs b p v0) sec) n =
             foldl (++) Map.empty
               (map (\<lambda>i. map_of (inherited_from fs b (or_empty v0 @ [p]) i sec))
                  (interfaces_of root')) n"
    by (simp add: l map_of_dict_update map_of_fold_dict_update distinct_inherited_from map_add_def)
next
  show "is_excluded c \<longleftrightarrow> findall ''Arg'' c = [] \<or> find_elem ''DetailDistance'' c \<noteq> None"
    by (auto simp: is_excluded_def)
qed

theorem excluded_declarations_absent_witness:
  "(''heal'', Args [''INT8''])
      \<in> set (fst (collect_methods vehicle_fs ''g'' ''g/Vehicle.def'' None) ClientMethods)
   \<and> (\<exists>root c. Some root \<in> snd ` set vehicle_fs
        \<and> c \<in> set (local_declarations ClientMethods root)
        \<and> tag c = ''heal'' \<and> Args [''INT8''] = describe ClientMethods c
        \<and> findall ''Arg'' c \<noteq> [] \<and> find_elem ''DetailDistance'' c = None)
   \<and> ''g/Vehicle.def'' \<notin> set (or_empty None)
   \<and> parse vehicle_fs ''g/Vehicle.def'' = Some (the (parse vehicle_fs ''g/Vehicle.def''))
   \<and> list_all (\<lambda>i. el_text i \<noteq> None)
        (interfaces_of (the (parse vehicle_fs ''g/Vehicle.def'')))
   \<and> list_all is_excluded
        (filter (\<lambda>c. tag c = ''heal'')
           (local_declarations ClientMethods (the (parse vehicle_fs ''g/Vehicle.def''))))
   \<and> map_of (fst (collect_methods vehicle_fs ''g'' ''g/Vehicle.def'' None) ClientMethods) ''heal''
       = foldl (++) Map.empty
           (map (\<lambda>i. map_of (inherited_from vehicle_fs ''g'' [''g/Vehicle.def''] i ClientMethods))
              (interfaces_of (the (parse vehicle_fs ''g/Vehicle.def'')))) ''heal''
   \<and> map_of (fst (collect_methods vehicle_fs ''g'' ''g/Vehicle.def'' None) ClientMethods) ''heal''
       = Some (Args [''INT8''])
   \<and> map fst (fst (collect_methods vehicle_fs ''g'' ''g/Vehicle.def'' None) ClientMethods)
       = [''takeDamage'', ''repair'', ''heal'']
   \<and> is_excluded (Element ''ping'' None [])"
proof -
  have m: "(''heal'', Args [''INT8''])
      \<in> set (fst (collect_methods vehicle_fs ''g'' ''g/Vehicle.def'' None) ClientMethods)"
    by code_simp
  have h: "''g/Vehicle.def'' \<notin> set (or_empty None)
      \<and> parse vehicle_fs ''g/Vehicle.def'' = Some (the (parse vehicle_fs ''g/Vehicle.def''))
      \<and> (\<forall>i\<in>set (interfaces_of (the (parse vehicle_fs ''g/Vehicle.def''))). el_text i \<noteq> None)
      \<and> (\<forall>c\<in>set (local_declarations ClientMethods (the (parse vehicle_fs ''g/Vehicle.def''))).
            tag c = ''heal'' \<longrightarrow> is_excluded c)"
    by code_simp
  have e: "map_of (fst (collect_methods vehicle_fs ''g'' ''g/Vehicle.def'' None) ClientMethods)
        ''heal'' = Some (Args [''INT8''])
      \<and> map fst (fst (collect_methods vehicle_fs ''g'' ''g/Vehicle.def'' None) ClientMethods)
        = [''takeDamage'', ''repair'', ''heal'']
      \<and> is_excluded (Element ''ping'' None [])"
    by code_simp
  note t = excluded_declarations_absent[of vehicle_fs "''g''" "''g/Vehicle.def''" None ClientMethods
      "the (parse vehicle_fs ''g/Vehicle.def'')" "''heal''" "Element ''ping'' None []"]
  have p1: "\<exists>root c. Some root \<in> snd ` set vehicle_fs
        \<and> c \<in> set (local_declarations ClientMethods root)
        \<and> tag c = ''heal'' \<and> Args [''INT8''] = describe ClientMethods c
        \<and> findall ''Arg'' c \<noteq> [] \<and> find_elem ''DetailDistance'' c = None"
    using t[THEN conjunct1] m by fast
  have p2: "map_of (fst (collect_methods vehicle_fs ''g'' ''g/Vehicle.def'' None) ClientMethods)
        ''heal''
       = foldl (++) Map.empty
           (map (\<lambda>i. map_of (inherited_from vehicle_fs ''g'' [''g/Vehicle.def''] i ClientMethods))
              (interfaces_of (the (parse vehicle_fs ''g/Vehicle.def'')))) ''heal''"
    using t[THEN conjunct2, THEN conjunct1] h by simp
  have h': "list_all (\<lambda>i. el_text i \<noteq> None)
        (interfaces_of (the (parse vehicle_fs ''g/Vehicle.def'')))
      \<and> list_all is_excluded
        (filter (\<lambda>c. tag c = ''heal'')
           (local_declarations ClientMethods (the (parse vehicle_fs ''g/Vehicle.def''))))"
    by code_simp
  show ?thesis using m h h' e p1 p2 by blast
qed

section \<open>A name declared more than once in one file\<close>

text \<open>
  When a file declares a name several times in one section, the category map holds
  exactly one entry of that name, with the descriptor of the last declaration of the
  name that is not excluded: an excluded declaration after it changes nothing. The file
  is one that parses, in a call that is not short-circuited and whose first loop ends
  without an exception.
\<close>

theorem duplicate_declarations:
  assumes "def_path \<notin> set (or_empty visited0)"
    and "parse fs def_path = Some root"
    and "\<forall>i\<in>set (interfaces_of root). el_text i \<noteq> None"
    and "local_declarations sec root = pre @ c # post"
    and "\<not> is_excluded c"
    and "\<forall>c'\<in>set post. tag c' = tag c \<longrightarrow> is_excluded c'"
  shows "map_of (fst (collect_methods fs b def_path visited0) sec) (tag c) = Some (describe sec c)
         \<and> filter (\<lambda>e. fst e = tag c) (fst (collect_methods fs b def_path visited0) sec)
             = [(tag c, describe sec c)]"
proof -
  have l: "fst (collect_methods fs b def_path visited0) sec =
     dict_update
       (fold (\<lambda>i d. dict_update d (inherited_from fs b (or_empty visited0 @ [def_path]) i sec))
          (interfaces_of root) [])
       (surviving sec root)"
    by (rule collect_methods_merged[OF assms(1,2,3)])
  have "map_of (rev (surviving sec root)) (tag c) = Some (describe sec c)"
    by (rule map_of_rev_surviving_last[OF assms(4,5,6)])
  then have m: "map_of (fst (collect_methods fs b def_path visited0) sec) (tag c)
      = Some (describe sec c)"
    by (simp add: l map_of_dict_update map_add_def)
  then show ?thesis
    using filter_key_distinct[OF distinct_results[of fs b def_path visited0 sec] m] by simp
qed

theorem duplicate_declarations_witness:
  "''g/Dup.def'' \<notin> set (or_empty None)
   \<and> parse dup_fs ''g/Dup.def'' = Some (the (parse dup_fs ''g/Dup.def''))
   \<and> list_all (\<lambda>i. el_text i \<noteq> None) (interfaces_of (the (parse dup_fs ''g/Dup.def'')))
   \<and> local_declarations ClientMethods (the (parse dup_fs ''g/Dup.def'')) =
        [Element ''m'' None [Element ''Arg'' (Some ''INT8'') []],
         Element ''n'' None [Element ''Arg'' (Some ''INT8'') []]]
        @ Element ''m'' None [Element ''Arg'' (Some ''INT16'') []] # [Element ''m'' None []]
   \<and> \<not> is_excluded (Element ''m'' None [Element ''Arg'' (Some ''INT16'') []])
   \<and> list_all is_excluded
        (filter (\<lambda>c'. tag c' = tag (Element ''m'' None [Element ''Arg'' (Some ''INT16'') []]))
           [Element ''m'' None []])
   \<and> map_of (fst (collect_methods dup_fs ''g'' ''g/Dup.def'' None) ClientMethods) ''m''
       = Some (Args [''INT16''])
   \<and> filter (\<lambda>e. fst e = ''m'') (fst (collect_methods dup_fs ''g'' ''g/Dup.def'' None) ClientMethods)
       = [(''m'', Args [''INT16''])]
   \<and> fst (collect_methods dup_fs ''g'' ''g/Dup.def'' None) ClientMethods
       = [(''m'', Args [''INT16'']), (''n'', Args [''INT8''])]"
proof -
  have h1: "''g/Dup.def'' \<notin> set (or_empty None)"
    by simp
  have h2: "parse dup_fs ''g/Dup.def'' = Some (the (parse dup_fs ''g/Dup.def''))"
    by code_simp
  have h3: "\<forall>i\<in>set (interfaces_of (the (parse dup_fs ''g/Dup.def''))). el_text i \<noteq> None"
    by code_simp
  have h4: "local_declarations ClientMethods (the (parse dup_fs ''g/Dup.def'')) =
        [Element ''m'' None [Element ''Arg'' (Some ''INT8'') []],
         Element ''n'' None [Element ''Arg'' (Some ''INT8'') []]]
        @ Element ''m'' None [Element ''Arg'' (Some ''INT16'') []] # [Element ''m'' None []]"
    by code_simp
  have h5: "\<not> is_excluded (Element ''m'' None [Element ''Arg'' (Some ''INT16'') []])"
    by code_simp
  have h6: "\<forall>c'\<in>set [Element ''m'' None []].
         tag c' = tag (Element ''m'' None [Element ''Arg'' (Some ''INT16'') []])
         \<longrightarrow> is_excluded c'"
    by code_simp
  have d: "describe ClientMethods (Element ''m'' None [Element ''Arg'' (Some ''INT16'') []])
      = Args [''INT16'']"
    by code_simp
  have e: "fst (collect_methods dup_fs ''g'' ''g/Dup.def'' None) ClientMethods
       = [(''m'', Args [''INT16'']), (''n'', Args [''INT8''])]"
    by code_simp
  have t: "map_of (fst (collect_methods dup_fs ''g'' ''g/Dup.def'' None) ClientMethods) ''m''
       = Some (Args [''INT16''])
     \<and> filter (\<lambda>e. fst e = ''m'') (fst (collect_methods dup_fs ''g'' ''g/Dup.def'' None) ClientMethods)
       = [(''m'', Args [''INT16''])]"
    using duplicate_declarations[OF h1 h2 h3 h4 h5 h6, of "''g''"] d by simp
  have h': "list_all (\<lambda>i. el_text i \<noteq> None) (interfaces_of (the (parse dup_fs ''g/Dup.def'')))
      \<and> list_all is_excluded
        (filter (\<lambda>c'. tag c' = tag (Element ''m'' None [Element ''Arg'' (Some ''INT16'') []]))
           [Element ''m'' None []])"
    by code_simp
  show ?thesis using h1 h2 h4 h5 h' e t by blast
qed

text \<open>
  C10. A file that declares a name twice in one category should give a category map with
  exactly one entry of that name, carrying the descriptor of the last declaration that
  is not excluded. The program does so whenever its first loop ends without an
  exception. \<^verbatim>\<open>Dup.def\<close> declares \<^verbatim>\<open>m(INT8)\<close> and then \<^verbatim>\<open>m(INT16)\<close>, neither excluded, and
  has an \<^verbatim>\<open>Interface\<close> element without text: the unguarded \<^verbatim>\<open>interface.text.strip()\<close> of
  the first loop raises, the loop over the local declarations never runs, and the
  category map has no entry \<^verbatim>\<open>m\<close> at all.
\<close>

theorem duplicate_declarations_lost:
  "get_def_path dup_broken_fs ''g'' ''Dup'' = Some ''g/Dup.def''
   \<and> local_declarations ClientMethods (the (parse dup_broken_fs ''g/Dup.def''))
       = [Element ''m'' None [Element ''Arg'' (Some ''INT8'') []],
          Element ''m'' None [Element ''Arg'' (Some ''INT16'') []]]
   \<and> fst (collect_methods dup_broken_fs ''g'' ''g/Dup.def'' None) ClientMethods = []
   \<and> filter (\<lambda>e. fst e = ''m'')
        (fst (collect_methods dup_broken_fs ''g'' ''g/Dup.def'' None) ClientMethods)
       \<noteq> [(''m'', Args [''INT16''])]
   \<and> snd (snd (collect_methods dup_broken_fs ''g'' ''g/Dup.def'' None))
       = [Error_failed ''g/Dup.def'']"
  by code_simp

section \<open>Index assignment\<close>

lemma map_indexed_entry:
  "map fst (map (\<lambda>(i, k). (i, k, g k)) xs) = map fst xs"
  "map (\<lambda>e. fst (snd e)) (map (\<lambda>(i, k). (i, k, g k)) xs) = map snd xs"
  "map (\<lambda>e. (fst e, fst (snd e))) (map (\<lambda>(i, k). (i, k, g k)) xs) = xs"
  by (induction xs) auto

lemma to_indexed_dict_keys: "map fst (to_indexed_dict d) = [0..<length d]"
  unfolding to_indexed_dict_def Let_def map_indexed_entry by simp

lemma to_indexed_dict_names: "map (\<lambda>e. fst (snd e)) (to_indexed_dict d) = sort (map fst d)"
  unfolding to_indexed_dict_def Let_def map_indexed_entry by simp

lemma to_indexed_dict_pairs:
  "map (\<lambda>e. (fst e, fst (snd e))) (to_indexed_dict d) = enumerate 0 (sort (map fst d))"
  unfolding to_indexed_dict_def Let_def map_indexed_entry by simp

lemma to_indexed_dict_lookup:
  assumes "(i, k, x) \<in> set (to_indexed_dict d)"
  shows "map_of d k = Some x"
proof -
  from assms obtain j where j: "(j, k) \<in> set (enumerate 0 (sort (map fst d)))"
    and x: "x = the (map_of d k)"
    by (auto simp: to_indexed_dict_def)
  have "snd ` set (enumerate 0 (sort (map fst d))) = set (sort (map fst d))"
    by (metis map_snd_enumerate set_map)
  then have "k \<in> set (sort (map fst d))" using j by force
  then have "k \<in> fst ` set d" by simp
  then have "map_of d k \<noteq> None" by (simp add: map_of_eq_None_iff)
  then show ?thesis using x by auto
qed

lemma sort_keys_unique:
  assumes "distinct (map fst d)" and "distinct (map fst d')"
    and "set (map fst d) = set (map fst d')"
  shows "sort (map fst d) = sort (map fst d')"
  using assms by (intro sorted_distinct_set_unique) simp_all

text \<open>
  C6. \<^verbatim>\<open>to_indexed_dict\<close> numbers the entries \<open>0\<close> to \<open>n - 1\<close>; the names, read in the
  order of the indices, are the keys of the dict sorted in the order of strings, which
  compares code points from left to right (a proper prefix comes first); every entry
  carries the descriptor the dict holds for its name. Two dicts with the same set of
  names get the same assignment of indices to names, whatever their descriptors and
  their insertion order: the assignment is a function of the name set. The same function
  builds the four indexed maps of an entity.
\<close>

theorem index_assignment:
  "map fst (to_indexed_dict d) = [0..<length d]
   \<and> map (\<lambda>e. fst (snd e)) (to_indexed_dict d) = sort (map fst d)
   \<and> sorted (map (\<lambda>e. fst (snd e)) (to_indexed_dict d))
   \<and> (\<forall>(i, k, x) \<in> set (to_indexed_dict d). map_of d k = Some x)
   \<and> (distinct (map fst d) \<and> distinct (map fst d') \<and> set (map fst d) = set (map fst d') \<longrightarrow>
        map (\<lambda>e. (fst e, fst (snd e))) (to_indexed_dict d)
          = map (\<lambda>e. (fst e, fst (snd e))) (to_indexed_dict d'))
   \<and> clientMethods (make_entity_json n name data) = to_indexed_dict (data ClientMethods)
   \<and> properties (make_entity_json n name data) = to_indexed_dict (data Properties)
   \<and> cellMethods (make_entity_json n name data) = to_indexed_dict (data CellMethods)
   \<and> baseMethods (make_entity_json n name data) = to_indexed_dict (data BaseMethods)"
proof (intro conjI impI)
  show "map fst (to_indexed_dict d) = [0..<length d]"
    by (rule to_indexed_dict_keys)
  show n: "map (\<lambda>e. fst (snd e)) (to_indexed_dict d) = sort (map fst d)"
    by (rule to_indexed_dict_names)
  show "sorted (map (\<lambda>e. fst (snd e)) (to_indexed_dict d))"
    by (simp only: n sorted_sort)
  show "\<forall>(i, k, x) \<in> set (to_indexed_dict d). map_of d k = Some x"
    using to_indexed_dict_lookup by blast
next
  assume a: "distinct (map fst d) \<and> distinct (map fst d') \<and> set (map fst d) = set (map fst d')"
  then have s: "sort (map fst d) = sort (map fst d')"
    using sort_keys_unique[of d d'] by blast
  show "map (\<lambda>e. (fst e, fst (snd e))) (to_indexed_dict d)
          = map (\<lambda>e. (fst e, fst (snd e))) (to_indexed_dict d')"
    using s by (simp add: to_indexed_dict_pairs)
qed (simp_all add: make_entity_json_def)

theorem index_assignment_witness:
  "to_indexed_dict [(''onHealthChanged'', Args [''INT32'']), (''onAmmoChanged'', Args [''INT8''])]
     = [(0, ''onAmmoChanged'', Args [''INT8'']), (1, ''onHealthChanged'', Args [''INT32''])]
   \<and> distinct (map fst [(''onHealthChanged'', Args [''INT32'']), (''onAmmoChanged'', Args [''INT8''])])
   \<and> distinct (map fst [(''onAmmoChanged'', Args []), (''onHealthChanged'', Args [])])
   \<and> set (map fst [(''onHealthChanged'', Args [''INT32'']), (''onAmmoChanged'', Args [''INT8''])])
       = set (map fst [(''onAmmoChanged'', Args []), (''onHealthChanged'', Args [])])
   \<and> map (\<lambda>e. (fst e, fst (snd e)))
        (to_indexed_dict [(''onHealthChanged'', Args [''INT32'']), (''onAmmoChanged'', Args [''INT8''])])
       = map (\<lambda>e. (fst e, fst (snd e)))
           (to_indexed_dict [(''onAmmoChanged'', Args []), (''onHealthChanged'', Args [])])
   \<and> map (\<lambda>e. (fst e, fst (snd e)))
        (to_indexed_dict [(''onAmmoChanged'', Args []), (''onHealthChanged'', Args [])])
       = [(0, ''onAmmoChanged''), (1, ''onHealthChanged'')]
   \<and> map (\<lambda>e. fst (snd e))
        (to_indexed_dict [(''b'', Type ''INT8''), (''a0'', Type ''INT8''), (''a'', Type ''INT8''),
           (''Z'', Type ''INT8'')])
       = [''Z'', ''a'', ''a0'', ''b'']"
proof -
  have e1: "to_indexed_dict [(''onHealthChanged'', Args [''INT32'']), (''onAmmoChanged'', Args [''INT8''])]
     = [(0, ''onAmmoChanged'', Args [''INT8'']), (1, ''onHealthChanged'', Args [''INT32''])]"
    by code_simp
  have h: "distinct (map fst [(''onHealthChanged'', Args [''INT32'']), (''onAmmoChanged'', Args [''INT8''])])
     \<and> distinct (map fst [(''onAmmoChanged'', Args []), (''onHealthChanged'', Args [])])
     \<and> set (map fst [(''onHealthChanged'', Args [''INT32'']), (''onAmmoChanged'', Args [''INT8''])])
       = set (map fst [(''onAmmoChanged'', Args []), (''onHealthChanged'', Args [])])"
    by auto
  have e2: "map (\<lambda>e. (fst e, fst (snd e)))
        (to_indexed_dict [(''onAmmoChanged'', Args []), (''onHealthChanged'', Args [])])
       = [(0, ''onAmmoChanged''), (1, ''onHealthChanged'')]"
    by code_simp
  have e3: "map (\<lambda>e. fst (snd e))
        (to_indexed_dict [(''b'', Type ''INT8''), (''a0'', Type ''INT8''), (''a'', Type ''INT8''),
           (''Z'', Type ''INT8'')])
       = [''Z'', ''a'', ''a0'', ''b'']"
    by code_simp
  have t: "map (\<lambda>e. (fst e, fst (snd e)))
        (to_indexed_dict [(''onHealthChanged'', Args [''INT32'']), (''onAmmoChanged'', Args [''INT8''])])
       = map (\<lambda>e. (fst e, fst (snd e)))
           (to_indexed_dict [(''onAmmoChanged'', Args []), (''onHealthChanged'', Args [])])"
    using index_assignment[of "[(''onHealthChanged'', Args [''INT32'']), (''onAmmoChanged'', Args [''INT8''])]"
        "[(''onAmmoChanged'', Args []), (''onHealthChanged'', Args [])]"] h
    by blast
  show ?thesis using e1 h e2 e3 t by blast
qed

section \<open>Determinism\<close>

lemma process_entities_append:
  "process_entities fs b (xs @ ys) = process_entities fs b xs @ process_entities fs b ys"
  by (induction xs) (auto split: option.splits prod.splits)

text \<open>
  C9. The result of a resolution is a function of the definition set, the base path and
  the path of the entity, and nothing a call leaves behind reaches the next call: a call
  without the \<^verbatim>\<open>visited\<close> argument is a call with a new empty list, it returns the list
  empty, and a second call that were given the very list the first call returned would
  return the same results, list and output. In the loop over the entities each entity is
  resolved as if it were alone. This holds for every definition set, so in particular
  for the acyclic ones.
\<close>

theorem collect_methods_deterministic:
  "collect_methods fs b p None = collect_methods fs b p (Some [])
   \<and> fst (snd (collect_methods fs b p None)) = []
   \<and> (collect_methods fs b p None = (r, v, out) \<longrightarrow>
        collect_methods fs b p (Some v) = (r, v, out))
   \<and> process_entities fs b (xs @ ys) = process_entities fs b xs @ process_entities fs b ys"
proof (intro conjI impI)
  show 1: "collect_methods fs b p None = collect_methods fs b p (Some [])"
    by (simp add: collect_methods.simps)
  show 2: "fst (snd (collect_methods fs b p None)) = []"
    using visited_restored(1)[of fs b p None] by simp
  show "process_entities fs b (xs @ ys) = process_entities fs b xs @ process_entities fs b ys"
    by (rule process_entities_append)
  assume "collect_methods fs b p None = (r, v, out)"
  then show "collect_methods fs b p (Some v) = (r, v, out)" using 1 2 by simp
qed

theorem collect_methods_deterministic_witness:
  "collect_methods vehicle_fs ''g'' ''g/Vehicle.def''
       (Some (fst (snd (collect_methods vehicle_fs ''g'' ''g/Vehicle.def'' None))))
     = collect_methods vehicle_fs ''g'' ''g/Vehicle.def'' None
   \<and> fst (snd (collect_methods vehicle_fs ''g'' ''g/Vehicle.def'' None)) = []
   \<and> map (\<lambda>c. fst (collect_methods vehicle_fs ''g'' ''g/Vehicle.def'' None) c) sections
     = [[(''takeDamage'', Args [''INT32'', ''STRING'']), (''repair'', Args [''INT16'']),
         (''heal'', Args [''INT8''])], [], [], []]
   \<and> map ent_name (process_entities vehicle_fs ''g'' ([(0, ''Vehicle'')] @ [(1, ''Armored'')]))
     = [''Vehicle'', ''Armored'']"
proof -
  define c where "c = collect_methods vehicle_fs ''g'' ''g/Vehicle.def'' None"
  have hyp: "c = (fst c, fst (snd c), snd (snd c))"
    by simp
  note t = collect_methods_deterministic[of vehicle_fs "''g''" "''g/Vehicle.def''"
      "fst c" "fst (snd c)" "snd (snd c)" "[(0, ''Vehicle'')]" "[(1, ''Armored'')]"]
  have 1: "collect_methods vehicle_fs ''g'' ''g/Vehicle.def'' (Some (fst (snd c))) = c"
    using t hyp unfolding c_def by metis
  have 2: "fst (snd c) = []"
    using t unfolding c_def by blast
  have e: "map (\<lambda>c. fst (collect_methods vehicle_fs ''g'' ''g/Vehicle.def'' None) c) sections
     = [[(''takeDamage'', Args [''INT32'', ''STRING'']), (''repair'', Args [''INT16'']),
         (''heal'', Args [''INT8''])], [], [], []]"
    by code_simp
  have e': "map ent_name (process_entities vehicle_fs ''g'' ([(0, ''Vehicle'')] @ [(1, ''Armored'')]))
     = [''Vehicle'', ''Armored'']"
    by code_simp
  show ?thesis using 1 2 e e' unfolding c_def by blast
qed

end
